theory Spec2Isabelle
  imports Main "HOL-Library.AList" "HOL-Library.Char_ord" "HOL-Library.List_Lexorder"
    "HOL-Library.Multiset"
begin

section \<open>The static site generator \<^verbatim>\<open>build.js\<close>\<close>

text \<open>
  A shallow embedding of \<^verbatim>\<open>build.js\<close>. Text is a \<^typ>\<open>string\<close>: the bytes of
  its UTF-8 encoding. Every step of the pipeline that is modelled here (substring search,
  the \<^verbatim>\<open>$\<close> patterns of \<^verbatim>\<open>String.prototype.replace\<close>, the punctuation and
  escapes of \<^verbatim>\<open>JSON.stringify\<close>) acts on ASCII characters only, and on well-formed
  text it commutes with the encoding.

  What the script takes from its runtime and not from its own text is a parameter of
  the model, collected in the record \<open>platform\<close>: the parser \<^verbatim>\<open>JSON.parse\<close>, the
  collation of \<^verbatim>\<open>String.prototype.localeCompare\<close> (locale dependent), and the message
  of the error raised by reading a directory as a file.
\<close>

subsection \<open>JSON values\<close>

datatype error = TypeError | IOError

text \<open>
  A number is kept as the text \<^verbatim>\<open>Number::toString\<close> gives for it (\<open>''0''\<close> for both
  zeros); \<^verbatim>\<open>JSON.parse\<close> yields an infinity for a literal out of range and never NaN.
\<close>

datatype jsnum = Num string | PosInf | NegInf

text \<open>
  An object lists its own properties in the order \<^verbatim>\<open>OrdinaryOwnPropertyKeys\<close>
  enumerates them.
\<close>

datatype json =
    JNull
  | JBool bool
  | JNumber jsnum
  | JString string
  | JArray "json list"
  | JObject "(string \<times> json) list"

text \<open>\<^verbatim>\<open>ToBoolean\<close> on a parsed value.\<close>

fun truthy :: "json \<Rightarrow> bool" where
  "truthy JNull = False"
| "truthy (JBool b) = b"
| "truthy (JNumber n) = (n \<noteq> Num ''0'')"
| "truthy (JString s) = (s \<noteq> [])"
| "truthy (JArray xs) = True"
| "truthy (JObject ms) = True"

text \<open>
  \<^verbatim>\<open>v.name\<close> for a property name that no built-in prototype defines (\<^verbatim>\<open>date\<close>,
  \<^verbatim>\<open>contact_email\<close>): a TypeError on \<^verbatim>\<open>null\<close>, the own property of an object,
  \<^verbatim>\<open>undefined\<close> (\<open>None\<close>) otherwise.
\<close>

fun get_prop :: "json \<Rightarrow> string \<Rightarrow> error + json option" where
  "get_prop JNull name = Inl TypeError"
| "get_prop (JObject ms) name = Inr (map_of ms name)"
| "get_prop v name = Inr None"

text \<open>\<^verbatim>\<open>v || ''\<close>\<close>

definition or_empty :: "json option \<Rightarrow> json" where
  "or_empty v = (case v of None \<Rightarrow> JString [] | Some x \<Rightarrow> if truthy x then x else JString [])"

text \<open>
  \<^verbatim>\<open>ToString\<close>. An array is joined with commas, \<^verbatim>\<open>null\<close> elements as the empty
  text; an object is \<^verbatim>\<open>[object Object]\<close>, unless it has an own property
  \<^verbatim>\<open>toString\<close>, which (not being callable) leaves \<^verbatim>\<open>OrdinaryToPrimitive\<close> with a
  TypeError.
\<close>

fun ToString :: "json \<Rightarrow> error + string"
  and array_join :: "json list \<Rightarrow> error + string" where
  "ToString JNull = Inr ''null''"
| "ToString (JBool b) = Inr (if b then ''true'' else ''false'')"
| "ToString (JNumber n) =
     Inr (case n of Num s \<Rightarrow> s | PosInf \<Rightarrow> ''Infinity'' | NegInf \<Rightarrow> ''-Infinity'')"
| "ToString (JString s) = Inr s"
| "ToString (JArray xs) = array_join xs"
| "ToString (JObject ms) =
     (if ''toString'' \<in> fst ` set ms then Inl TypeError else Inr ''[object Object]'')"
| "array_join [] = Inr []"
| "array_join (x # xs) =
     (case (if x = JNull then Inr [] else ToString x) of
        Inl e \<Rightarrow> Inl e
      | Inr s \<Rightarrow>
          if xs = [] then Inr s
          else (case array_join xs of Inl e \<Rightarrow> Inl e | Inr r \<Rightarrow> Inr (s @ '','' @ r)))"

subsection \<open>\<^verbatim>\<open>JSON.stringify(value, null, 2)\<close>\<close>

definition dquote :: char where "dquote = CHR 0x22"
definition backslash :: char where "backslash = CHR 0x5C"
definition newline :: char where "newline = CHR 0x0A"

definition hex_digit :: "nat \<Rightarrow> char" where
  "hex_digit n = ''0123456789abcdef'' ! (n mod 16)"

definition escape_char :: "char \<Rightarrow> string" where
  "escape_char c =
     (if c = CHR 0x08 then [backslash, CHR ''b'']
      else if c = CHR 0x09 then [backslash, CHR ''t'']
      else if c = CHR 0x0A then [backslash, CHR ''n'']
      else if c = CHR 0x0C then [backslash, CHR ''f'']
      else if c = CHR 0x0D then [backslash, CHR ''r'']
      else if c = dquote then [backslash, dquote]
      else if c = backslash then [backslash, backslash]
      else if (of_char c :: nat) < 0x20
        then [backslash, CHR ''u'', CHR ''0'', CHR ''0'',
              hex_digit (of_char c div 16), hex_digit (of_char c)]
      else [c])"

definition QuoteJSONString :: "string \<Rightarrow> string" where
  "QuoteJSONString s = dquote # concat (map escape_char s) @ [dquote]"

fun join :: "string \<Rightarrow> string list \<Rightarrow> string" where
  "join sep [] = []"
| "join sep [x] = x"
| "join sep (x # y # ys) = x @ sep @ join sep (y # ys)"

definition gap :: string where "gap = ''  ''"

text \<open>
  \<^verbatim>\<open>SerializeJSONProperty\<close> with \<^verbatim>\<open>SerializeJSONArray\<close> and
  \<^verbatim>\<open>SerializeJSONObject\<close>; the first argument is the current indentation.
\<close>

fun SerializeJSONProperty :: "string \<Rightarrow> json \<Rightarrow> string"
  and SerializeJSONArray :: "string \<Rightarrow> json list \<Rightarrow> string list"
  and SerializeJSONObject :: "string \<Rightarrow> (string \<times> json) list \<Rightarrow> string list" where
  "SerializeJSONProperty ind JNull = ''null''"
| "SerializeJSONProperty ind (JBool b) = (if b then ''true'' else ''false'')"
| "SerializeJSONProperty ind (JNumber n) = (case n of Num s \<Rightarrow> s | _ \<Rightarrow> ''null'')"
| "SerializeJSONProperty ind (JString s) = QuoteJSONString s"
| "SerializeJSONProperty ind (JArray xs) =
     (if xs = [] then ''[]''
      else ''['' @ [newline] @ (ind @ gap)
           @ join ('','' @ [newline] @ (ind @ gap)) (SerializeJSONArray (ind @ gap) xs)
           @ [newline] @ ind @ '']'')"
| "SerializeJSONProperty ind (JObject ms) =
     (if ms = [] then ''{}''
      else ''{'' @ [newline] @ (ind @ gap)
           @ join ('','' @ [newline] @ (ind @ gap)) (SerializeJSONObject (ind @ gap) ms)
           @ [newline] @ ind @ ''}'')"
| "SerializeJSONArray ind [] = []"
| "SerializeJSONArray ind (x # xs) = SerializeJSONProperty ind x # SerializeJSONArray ind xs"
| "SerializeJSONObject ind [] = []"
| "SerializeJSONObject ind ((k, v) # ms) =
     (QuoteJSONString k @ '': '' @ SerializeJSONProperty ind v) # SerializeJSONObject ind ms"

definition JSON_stringify :: "json \<Rightarrow> string" where
  "JSON_stringify v = SerializeJSONProperty [] v"

subsection \<open>\<^verbatim>\<open>String.prototype.replace\<close> with a string pattern\<close>

fun starts_with :: "string \<Rightarrow> string \<Rightarrow> bool" where
  "starts_with [] s = True"
| "starts_with (p # ps) [] = False"
| "starts_with (p # ps) (c # cs) = (p = c \<and> starts_with ps cs)"

text \<open>\<^verbatim>\<open>StringIndexOf(s, pat, 0)\<close>: the least position where \<open>pat\<close> occurs.\<close>

fun indexOf :: "string \<Rightarrow> string \<Rightarrow> nat option" where
  "indexOf [] pat = (if pat = [] then Some 0 else None)"
| "indexOf (c # cs) pat =
     (if starts_with pat (c # cs) then Some 0 else map_option Suc (indexOf cs pat))"

text \<open>
  \<^verbatim>\<open>GetSubstitution\<close> for a string pattern, which has no captures: \<^verbatim>\<open>$$\<close> is a
  dollar sign, \<^verbatim>\<open>$&\<close> the matched text, \<^verbatim>\<open>$`\<close> the text before the match,
  \<^verbatim>\<open>$'\<close> the text after it; a dollar sign before anything else (a digit and
  \<^verbatim>\<open><\<close> included, there being no capture to refer to) stands for itself.
\<close>

fun GetSubstitution :: "string \<Rightarrow> string \<Rightarrow> string \<Rightarrow> string \<Rightarrow> string" where
  "GetSubstitution matched preceding following [] = []"
| "GetSubstitution matched preceding following [c] = [c]"
| "GetSubstitution matched preceding following (c # d # r) =
     (if c = CHR ''$'' \<and> d = CHR ''$''
        then CHR ''$'' # GetSubstitution matched preceding following r
      else if c = CHR ''$'' \<and> d = CHR 0x60
        then preceding @ GetSubstitution matched preceding following r
      else if c = CHR ''$'' \<and> d = CHR ''&''
        then matched @ GetSubstitution matched preceding following r
      else if c = CHR ''$'' \<and> d = CHR 0x27
        then following @ GetSubstitution matched preceding following r
      else c # GetSubstitution matched preceding following (d # r))"

definition String_replace :: "string \<Rightarrow> string \<Rightarrow> string \<Rightarrow> string" where
  "String_replace s pat replacement =
     (case indexOf s pat of
        None \<Rightarrow> s
      | Some pos \<Rightarrow>
          (let preceding = take pos s;
               following = drop (pos + length pat) s
           in preceding @ GetSubstitution pat preceding following replacement @ following))"

subsection \<open>The injector\<close>

definition POSTS_TOKEN :: string where "POSTS_TOKEN = ''/*__POSTS_JSON__*/''"
definition UNLINKED_TOKEN :: string where "UNLINKED_TOKEN = ''/*__UNLINKED_JSON__*/''"
definition ABOUT_TOKEN :: string where "ABOUT_TOKEN = ''/*__ABOUT_JSON__*/''"
definition EMAIL_TOKEN :: string where "EMAIL_TOKEN = ''/*__CONTACT_EMAIL__*/''"


text \<open>
  \<^verbatim>\<open>site.contact_email || ''\<close>, as \<^verbatim>\<open>replace\<close> takes it: a replacement that is
  not a function is converted with \<^verbatim>\<open>ToString\<close> before the search.
\<close>

definition contact_email :: "json \<Rightarrow> error + string" where
  "contact_email site =
     (case get_prop site ''contact_email'' of
        Inl e \<Rightarrow> Inl e
      | Inr v \<Rightarrow> ToString (or_empty v))"

text \<open>The \<^verbatim>\<open>return\<close> expression of \<^verbatim>\<open>injectData\<close>: four replacements in a row.\<close>

definition inject_tokens :: "string \<Rightarrow> json list \<Rightarrow> json \<Rightarrow> json \<Rightarrow> json \<Rightarrow> error + string" where
  "inject_tokens html posts unlinked about site =
     (let h1 = String_replace html POSTS_TOKEN (JSON_stringify (JArray posts));
          h2 = String_replace h1 UNLINKED_TOKEN (JSON_stringify unlinked);
          h3 = String_replace h2 ABOUT_TOKEN (JSON_stringify about)
      in case contact_email site of
           Inl e \<Rightarrow> Inl e
         | Inr email \<Rightarrow> Inr (String_replace h3 EMAIL_TOKEN email))"

subsection \<open>The sorter\<close>

text \<open>
  The comparator \<^verbatim>\<open>(a, b) => (b.date || '').localeCompare(a.date || '')\<close>: a
  TypeError when a post is \<^verbatim>\<open>null\<close> and when the receiver \<^verbatim>\<open>b.date || ''\<close> is
  not a string (it has no method \<^verbatim>\<open>localeCompare\<close>); the argument is converted with
  \<^verbatim>\<open>ToString\<close>. The collation \<open>lc\<close> returns a negative number, zero or a
  positive number.
\<close>

definition date_or_empty :: "json \<Rightarrow> error + json" where
  "date_or_empty p =
     (case get_prop p ''date'' of Inl e \<Rightarrow> Inl e | Inr v \<Rightarrow> Inr (or_empty v))"

definition compare_posts :: "(string \<Rightarrow> string \<Rightarrow> int) \<Rightarrow> json \<Rightarrow> json \<Rightarrow> error + int" where
  "compare_posts lc a b =
     (case date_or_empty b of
        Inl e \<Rightarrow> Inl e
      | Inr receiver \<Rightarrow>
          (case date_or_empty a of
             Inl e \<Rightarrow> Inl e
           | Inr argument \<Rightarrow>
               (case receiver of
                  JString s \<Rightarrow>
                    (case ToString argument of Inl e \<Rightarrow> Inl e | Inr t \<Rightarrow> Inr (lc s t))
                | _ \<Rightarrow> Inl TypeError)))"

text \<open>
  \<^verbatim>\<open>Array.prototype.sort\<close> is stable, and for a comparator that is a consistent
  ordering every stable sort returns the same array; which comparisons are made is left
  to the engine. The model is the insertion sort that takes the posts from the first to
  the last and moves each one to the left, past the posts it has to precede. It hands
  the comparator the post it is placing as \<^verbatim>\<open>a\<close> and a post placed before as
  \<^verbatim>\<open>b\<close>, which is the order V8 calls it in, and raises what a comparison raises.

  \<open>insert_post\<close> takes the posts placed so far from the last to the first.
\<close>

fun insert_post :: "(string \<Rightarrow> string \<Rightarrow> int) \<Rightarrow> json \<Rightarrow> json list \<Rightarrow> error + json list" where
  "insert_post lc x [] = Inr [x]"
| "insert_post lc x (y # ys) =
     (case compare_posts lc x y of
        Inl e \<Rightarrow> Inl e
      | Inr c \<Rightarrow>
          if c < 0
          then (case insert_post lc x ys of Inl e \<Rightarrow> Inl e | Inr r \<Rightarrow> Inr (y # r))
          else Inr (x # y # ys))"

fun sort_from :: "(string \<Rightarrow> string \<Rightarrow> int) \<Rightarrow> json list \<Rightarrow> json list \<Rightarrow> error + json list" where
  "sort_from lc placed [] = Inr (rev placed)"
| "sort_from lc placed (x # xs) =
     (case insert_post lc x placed of Inl e \<Rightarrow> Inl e | Inr r \<Rightarrow> sort_from lc r xs)"

definition sort_posts :: "(string \<Rightarrow> string \<Rightarrow> int) \<Rightarrow> json list \<Rightarrow> error + json list" where
  "sort_posts lc posts = sort_from lc [] posts"

subsection \<open>The file system\<close>

text \<open>
  A directory lists its entries in the order \<^verbatim>\<open>readdirSync\<close> returns them. A path is
  the list of its components below \<^verbatim>\<open>ROOT\<close>.
\<close>

datatype node = File string | Dir "(string \<times> node) list"

type_synonym entries = "(string \<times> node) list"
type_synonym path = "string list"

text \<open>The state after a file system call, and the error it raised, if any.\<close>

type_synonym outcome = "entries \<times> error option"

fun lookup :: "entries \<Rightarrow> path \<Rightarrow> node option" where
  "lookup es [] = Some (Dir es)"
| "lookup es (name # p) =
     (if p = [] then map_of es name
      else (case map_of es name of Some (Dir sub) \<Rightarrow> lookup sub p | _ \<Rightarrow> None))"

definition existsSync :: "entries \<Rightarrow> path \<Rightarrow> bool" where
  "existsSync fs p = (lookup fs p \<noteq> None)"

text \<open>\<^verbatim>\<open>fs.rmSync(p, { recursive: true, force: true })\<close>\<close>

fun rmSync :: "path \<Rightarrow> entries \<Rightarrow> entries" where
  "rmSync [] es = es"
| "rmSync (name # p) es =
     (if p = [] then AList.delete name es
      else (case map_of es name of
              Some (Dir sub) \<Rightarrow> AList.update name (Dir (rmSync p sub)) es
            | _ \<Rightarrow> es))"

text \<open>\<^verbatim>\<open>fs.mkdirSync(p, { recursive: true })\<close>\<close>

fun mkdirSync :: "path \<Rightarrow> entries \<Rightarrow> outcome" where
  "mkdirSync [] es = (es, None)"
| "mkdirSync (name # p) es =
     (case map_of es name of
        None \<Rightarrow>
          (case mkdirSync p [] of (sub, err) \<Rightarrow> (AList.update name (Dir sub) es, err))
      | Some (Dir sub) \<Rightarrow>
          (case mkdirSync p sub of (sub', err) \<Rightarrow> (AList.update name (Dir sub') es, err))
      | Some (File c) \<Rightarrow> (es, Some IOError))"

fun writeFileSync :: "path \<Rightarrow> string \<Rightarrow> entries \<Rightarrow> outcome" where
  "writeFileSync [] c es = (es, Some IOError)"
| "writeFileSync (name # p) c es =
     (if p = []
      then (case map_of es name of
              Some (Dir sub) \<Rightarrow> (es, Some IOError)
            | _ \<Rightarrow> (AList.update name (File c) es, None))
      else (case map_of es name of
              Some (Dir sub) \<Rightarrow>
                (case writeFileSync p c sub of
                   (sub', err) \<Rightarrow> (AList.update name (Dir sub') es, err))
            | _ \<Rightarrow> (es, Some IOError)))"

text \<open>
  \<^verbatim>\<open>fs.readFileSync(p, 'utf-8')\<close>: the text of the file. The files the script reads
  as text (the template and the content files) are taken to hold well-formed UTF-8,
  which the decoder returns and \<^verbatim>\<open>writeFileSync\<close> encodes again as it is; a byte
  sequence that is not well-formed, which the decoder replaces by U+FFFD, is outside the
  model.
\<close>

definition readFileSync :: "entries \<Rightarrow> path \<Rightarrow> error + string" where
  "readFileSync fs p = (case lookup fs p of Some (File c) \<Rightarrow> Inr c | _ \<Rightarrow> Inl IOError)"

definition copyFileSync :: "path \<Rightarrow> path \<Rightarrow> entries \<Rightarrow> outcome" where
  "copyFileSync src dest fs =
     (case lookup fs src of
        Some (File c) \<Rightarrow> writeFileSync dest c fs
      | _ \<Rightarrow> (fs, Some IOError))"

definition cleanDir :: "path \<Rightarrow> entries \<Rightarrow> outcome" where
  "cleanDir p fs = mkdirSync p (if existsSync fs p then rmSync p fs else fs)"

definition ensureDir :: "path \<Rightarrow> entries \<Rightarrow> outcome" where
  "ensureDir p fs = (if \<not> existsSync fs p then mkdirSync p fs else (fs, None))"

text \<open>
  The loop of \<^verbatim>\<open>copyDirSync\<close> over the entries of the source directory, which were
  read before the copy began: the destination lies outside the source (under
  \<^verbatim>\<open>dist\<close>), so the copy does not change what is still to be read. A subdirectory
  exists when it is reached, so its copy starts at \<^verbatim>\<open>ensureDir\<close>.
\<close>

fun copy_entries :: "entries \<Rightarrow> path \<Rightarrow> entries \<Rightarrow> outcome" where
  "copy_entries [] dest fs = (fs, None)"
| "copy_entries ((name, File c) # rest) dest fs =
     (case writeFileSync (dest @ [name]) c fs of
        (fs', Some e) \<Rightarrow> (fs', Some e)
      | (fs', None) \<Rightarrow> copy_entries rest dest fs')"
| "copy_entries ((name, Dir sub) # rest) dest fs =
     (case ensureDir (dest @ [name]) fs of
        (fs', Some e) \<Rightarrow> (fs', Some e)
      | (fs', None) \<Rightarrow>
          (case copy_entries sub (dest @ [name]) fs' of
             (fs'', Some e) \<Rightarrow> (fs'', Some e)
           | (fs'', None) \<Rightarrow> copy_entries rest dest fs''))"

definition copyDirSync :: "path \<Rightarrow> path \<Rightarrow> entries \<Rightarrow> outcome" where
  "copyDirSync src dest fs =
     (case lookup fs src of
        None \<Rightarrow> (fs, None)
      | Some n \<Rightarrow>
          (case ensureDir dest fs of
             (fs', Some e) \<Rightarrow> (fs', Some e)
           | (fs', None) \<Rightarrow>
               (case n of
                  File c \<Rightarrow> (fs', Some IOError)
                | Dir es \<Rightarrow> copy_entries es dest fs')))"

subsection \<open>The content loader\<close>

record platform =
  JSON_parse :: "string \<Rightarrow> string + json"
  localeCompare :: "string \<Rightarrow> string \<Rightarrow> int"
  EISDIR_message :: string

datatype line = Log string | Warn string | Error string

definition readJSON :: "platform \<Rightarrow> entries \<Rightarrow> path \<Rightarrow> json \<Rightarrow> json" where
  "readJSON pf fs filePath fallback =
     (case lookup fs filePath of
        None \<Rightarrow> fallback
      | Some (Dir es) \<Rightarrow> fallback
      | Some (File c) \<Rightarrow>
          (case JSON_parse pf c of Inl msg \<Rightarrow> fallback | Inr v \<Rightarrow> v))"

definition endsWith :: "string \<Rightarrow> string \<Rightarrow> bool" where
  "endsWith s suffix =
     (length suffix \<le> length s \<and> drop (length s - length suffix) s = suffix)"

definition warning_sign :: string where
  "warning_sign = [CHR 0xE2, CHR 0x9A, CHR 0xA0]"

definition warning_line :: "string \<Rightarrow> string \<Rightarrow> string" where
  "warning_line f msg = ''  '' @ warning_sign @ ''  '' @ f @ '': '' @ msg"

text \<open>
  \<^verbatim>\<open>JSON.parse(fs.readFileSync(path.join(dir, f), 'utf-8'))\<close> inside the
  \<^verbatim>\<open>try\<close>: the parsed value, or the message of what was raised.
\<close>

definition read_post :: "platform \<Rightarrow> node \<Rightarrow> string + json" where
  "read_post pf n =
     (case n of File c \<Rightarrow> JSON_parse pf c | Dir es \<Rightarrow> Inl (EISDIR_message pf))"

text \<open>
  The loop of \<^verbatim>\<open>readPosts\<close> over the listed entries, with the warnings printed and
  the posts pushed so far. Each name is read as the entry the listing gave for it.
\<close>

fun load_posts :: "platform \<Rightarrow> entries \<Rightarrow> line list \<times> json list \<Rightarrow> line list \<times> json list" where
  "load_posts pf [] acc = acc"
| "load_posts pf ((f, n) # rest) (warnings, posts) =
     (case read_post pf n of
        Inr v \<Rightarrow> load_posts pf rest (warnings, posts @ [v])
      | Inl msg \<Rightarrow> load_posts pf rest (warnings @ [Warn (warning_line f msg)], posts))"

definition POSTS_DIR :: path where "POSTS_DIR = [''content'', ''posts'']"

definition readPosts :: "platform \<Rightarrow> entries \<Rightarrow> line list \<times> (error + json list)" where
  "readPosts pf fs =
     (case lookup fs POSTS_DIR of
        None \<Rightarrow> ([], Inr [])
      | Some (File c) \<Rightarrow> ([], Inl IOError)
      | Some (Dir es) \<Rightarrow>
          (case load_posts pf (filter (\<lambda>(f, n). endsWith f ''.json'') es) ([], []) of
             (warnings, posts) \<Rightarrow> (warnings, sort_posts (localeCompare pf) posts)))"

fun decimal :: "nat \<Rightarrow> string" where
  "decimal n =
     (if n < 10 then [''0123456789'' ! n]
      else decimal (n div 10) @ [''0123456789'' ! (n mod 10)])"

declare decimal.simps [simp del]

definition found_line :: "nat \<Rightarrow> line" where
  "found_line n = Log (''  Found '' @ decimal n @ '' post(s)'')"

definition about_default :: json where
  "about_default = JObject [(''en'', JString []), (''es'', JString [])]"

definition injectData :: "platform \<Rightarrow> entries \<Rightarrow> string \<Rightarrow> line list \<times> (error + string)" where
  "injectData pf fs html =
     (case readPosts pf fs of
        (warnings, Inl e) \<Rightarrow> (warnings, Inl e)
      | (warnings, Inr posts) \<Rightarrow>
          (let unlinked = readJSON pf fs [''content'', ''unlinked-comments.json''] (JArray []);
               about = readJSON pf fs [''content'', ''about.json''] about_default;
               site = readJSON pf fs [''content'', ''site.json''] (JObject [])
           in (warnings @ [found_line (length posts)],
               inject_tokens html posts unlinked about site)))"

subsection \<open>The build\<close>

record run =
  files :: entries
  console :: "line list"
  exit_code :: nat

definition DIST_DIR :: path where "DIST_DIR = [''dist'']"
definition TEMPLATE :: path where "TEMPLATE = [''templates'', ''index.html'']"
definition ASSETS_DIR :: path where "ASSETS_DIR = [''assets'']"
definition CNAME :: path where "CNAME = [''CNAME'']"

definition check_mark :: string where "check_mark = [CHR 0xE2, CHR 0x9C, CHR 0x93]"
definition cross_mark :: string where "cross_mark = [CHR 0xE2, CHR 0x9C, CHR 0x97]"
definition em_dash :: string where "em_dash = [CHR 0xE2, CHR 0x80, CHR 0x94]"
definition heavy_rule :: string where
  "heavy_rule = concat (replicate 3 [CHR 0xE2, CHR 0x94, CHR 0x81])"

definition started_line :: line where
  "started_line = Log (''works_on_work '' @ em_dash @ '' build started'')"

definition not_found_line :: line where
  "not_found_line =
     Error (''  '' @ cross_mark @ '' templates/index.html not found '' @ em_dash @ '' aborting'')"

definition done_line :: "string \<Rightarrow> line" where
  "done_line what = Log (''  '' @ check_mark @ '' '' @ what)"

definition complete_line :: "string \<Rightarrow> line" where
  "complete_line elapsed =
     Log ([newline] @ heavy_rule @ '' Build complete in '' @ elapsed @ ''s ''
          @ heavy_rule @ [newline])"

text \<open>An exception that nothing catches ends the process with status 1.\<close>

definition uncaught :: "entries \<Rightarrow> line list \<Rightarrow> run" where
  "uncaught fs con = \<lparr>files = fs, console = con, exit_code = 1\<rparr>"

text \<open>The last step: the \<^verbatim>\<open>CNAME\<close> file and the closing line.\<close>

definition build_cname :: "string \<Rightarrow> entries \<Rightarrow> line list \<Rightarrow> run" where
  "build_cname elapsed fs con =
     (if existsSync fs CNAME
      then (case copyFileSync CNAME (DIST_DIR @ [''CNAME'']) fs of
              (fs', Some e) \<Rightarrow> uncaught fs' con
            | (fs', None) \<Rightarrow>
                \<lparr>files = fs',
                 console = con @ [done_line ''CNAME'', complete_line elapsed],
                 exit_code = 0\<rparr>)
      else \<lparr>files = fs, console = con @ [complete_line elapsed], exit_code = 0\<rparr>)"

definition build_assets :: "string \<Rightarrow> entries \<Rightarrow> line list \<Rightarrow> run" where
  "build_assets elapsed fs con =
     (if existsSync fs ASSETS_DIR
      then (case copyDirSync ASSETS_DIR (DIST_DIR @ [''assets'']) fs of
              (fs', Some e) \<Rightarrow> uncaught fs' con
            | (fs', None) \<Rightarrow> build_cname elapsed fs' (con @ [done_line ''assets/'']))
      else build_cname elapsed fs con)"

text \<open>
  The step from \<^verbatim>\<open>templates/index.html\<close> to \<^verbatim>\<open>dist/index.html\<close>, in the file
  system \<^verbatim>\<open>cleanDir\<close> left.
\<close>

definition build_index :: "platform \<Rightarrow> string \<Rightarrow> entries \<Rightarrow> run" where
  "build_index pf elapsed fs1 =
     (if \<not> existsSync fs1 TEMPLATE
      then \<lparr>files = fs1, console = [started_line, not_found_line], exit_code = 1\<rparr>
      else (case readFileSync fs1 TEMPLATE of
              Inl e \<Rightarrow> uncaught fs1 [started_line]
            | Inr html \<Rightarrow>
                (case injectData pf fs1 html of
                   (lines, Inl e) \<Rightarrow> uncaught fs1 (started_line # lines)
                 | (lines, Inr out) \<Rightarrow>
                     (case writeFileSync (DIST_DIR @ [''index.html'']) out fs1 of
                        (fs2, Some e) \<Rightarrow> uncaught fs2 (started_line # lines)
                      | (fs2, None) \<Rightarrow>
                          build_assets elapsed fs2
                            (started_line # lines @ [done_line ''index.html''])))))"

text \<open>
  \<open>elapsed\<close> is the text of \<^verbatim>\<open>((Date.now() - start) / 1000).toFixed(2)\<close>, which
  depends on the run.
\<close>

definition build :: "platform \<Rightarrow> string \<Rightarrow> entries \<Rightarrow> run" where
  "build pf elapsed fs0 =
     (case cleanDir DIST_DIR fs0 of
        (fs1, Some e) \<Rightarrow> uncaught fs1 [started_line]
      | (fs1, None) \<Rightarrow> build_index pf elapsed fs1)"

subsection \<open>The vocabulary of the properties\<close>

text \<open>A pattern occurs in a text when \<^verbatim>\<open>indexOf\<close> finds it.\<close>

definition occurs :: "string \<Rightarrow> string \<Rightarrow> bool" where
  "occurs pat s = (indexOf s pat \<noteq> None)"


definition is_JString :: "json \<Rightarrow> bool" where
  "is_JString v = (case v of JString s \<Rightarrow> True | _ \<Rightarrow> False)"

text \<open>
  The date a post is ordered by: its \<^verbatim>\<open>date\<close> when that is a string, the empty
  string otherwise (when the post has no \<^verbatim>\<open>date\<close>, in particular).
\<close>

definition date_key :: "json \<Rightarrow> string" where
  "date_key p =
     (case p of
        JObject ms \<Rightarrow> (case map_of ms ''date'' of Some (JString s) \<Rightarrow> s | _ \<Rightarrow> [])
      | _ \<Rightarrow> [])"

text \<open>
  A post the comparator accepts: it is not \<^verbatim>\<open>null\<close>, and its \<^verbatim>\<open>date\<close> is
  missing, a string, or a value that \<^verbatim>\<open>||\<close> replaces by the empty string
  (\<^verbatim>\<open>null\<close>, \<^verbatim>\<open>false\<close>, \<^verbatim>\<open>0\<close>).
\<close>

definition sortable :: "json \<Rightarrow> bool" where
  "sortable p =
     (p \<noteq> JNull \<and>
      (case p of
         JObject ms \<Rightarrow>
           (case map_of ms ''date'' of None \<Rightarrow> True | Some d \<Rightarrow> is_JString d \<or> \<not> truthy d)
       | _ \<Rightarrow> True))"

text \<open>
  The collation orders the texts of \<open>S\<close> as the lexicographic order of their
  characters does (as the collations of ICU do on ISO dates, which are digits and
  hyphens).
\<close>

definition collates_as_code_units :: "(string \<Rightarrow> string \<Rightarrow> int) \<Rightarrow> string set \<Rightarrow> bool" where
  "collates_as_code_units lc S =
     (\<forall>s\<in>S. \<forall>t\<in>S. (0 < lc s t) = (t < s) \<and> (lc s t < 0) = (s < t))"

text \<open>
  What the post loader is to give for the entries of \<^verbatim>\<open>content/posts\<close>, in the
  order of the listing: the values of the \<^verbatim>\<open>.json\<close> files that parse, and for
  each \<^verbatim>\<open>.json\<close> file that does not, one warning line that holds its name and the
  message of the error.
\<close>

fun parsed_posts :: "platform \<Rightarrow> entries \<Rightarrow> json list" where
  "parsed_posts pf [] = []"
| "parsed_posts pf ((f, n) # es) =
     (if endsWith f ''.json''
      then (case read_post pf n of
              Inr v \<Rightarrow> v # parsed_posts pf es
            | Inl msg \<Rightarrow> parsed_posts pf es)
      else parsed_posts pf es)"

fun parse_warnings :: "platform \<Rightarrow> entries \<Rightarrow> line list" where
  "parse_warnings pf [] = []"
| "parse_warnings pf ((f, n) # es) =
     (if endsWith f ''.json''
      then (case read_post pf n of
              Inr v \<Rightarrow> parse_warnings pf es
            | Inl msg \<Rightarrow>
                Warn (''  '' @ [CHR 0xE2, CHR 0x9A, CHR 0xA0] @ ''  '' @ f @ '': '' @ msg)
                  # parse_warnings pf es)
      else parse_warnings pf es)"

text \<open>
  An operation on the file system that changes nothing outside the top-level entry \<open>d\<close>
  and whose effect on that entry, and whose error, depend on nothing else.
\<close>

definition confined :: "string \<Rightarrow> (entries \<Rightarrow> outcome) \<Rightarrow> bool" where
  "confined d op =
     ((\<forall>fs k. k \<noteq> d \<longrightarrow> map_of (fst (op fs)) k = map_of fs k) \<and>
      (\<forall>fs fs'. map_of fs d = map_of fs' d \<longrightarrow>
         map_of (fst (op fs)) d = map_of (fst (op fs')) d \<and> snd (op fs) = snd (op fs')))"

text \<open>Two runs leave the same output directory and exit with the same status.\<close>

definition same_output :: "run \<Rightarrow> run \<Rightarrow> bool" where
  "same_output r r' =
     (map_of (files r) ''dist'' = map_of (files r') ''dist'' \<and> exit_code r = exit_code r')"

text \<open>
  A tree as a file system holds it: no directory lists a name twice.
\<close>

fun well_formed :: "node \<Rightarrow> bool" where
  "well_formed (File c) = True"
| "well_formed (Dir es) = (distinct (map fst es) \<and> (\<forall>e\<in>set es. well_formed (snd e)))"

subsection \<open>A platform for the examples\<close>

text \<open>
  The examples below run the model on a platform whose parser knows a few texts and
  whose collation is the lexicographic order of the characters.
\<close>

definition code_unit_compare :: "string \<Rightarrow> string \<Rightarrow> int" where
  "code_unit_compare s t = (if s < t then - 1 else if t < s then 1 else 0)"

definition sample_parse :: "string \<Rightarrow> string + json" where
  \<open>sample_parse s =
     (if s = ''{}'' then Inr (JObject [])
      else if s = ''null'' then Inr JNull
      else if s = ''{"date":"2026-02-07"}''
        then Inr (JObject [(''date'', JString ''2026-02-07'')])
      else if s = ''{"date":"2026-01-01"}''
        then Inr (JObject [(''date'', JString ''2026-01-01'')])
      else if s = ''{"date":"april 2026"}''
        then Inr (JObject [(''date'', JString ''april 2026'')])
      else if s = ''{"date":"May 2026"}''
        then Inr (JObject [(''date'', JString ''May 2026'')])
      else Inl ''Unexpected end of JSON input'')\<close>

definition sample_platform :: platform where
  "sample_platform =
     \<lparr>JSON_parse = sample_parse,
      localeCompare = code_unit_compare,
      EISDIR_message = ''EISDIR: illegal operation on a directory, read''\<rparr>"

text \<open>
  A second collation, which orders the letters without regard to their case, as the
  collations of ICU do for letters that differ; the order of the characters is the
  collation of a Node built without ICU. The two disagree on \<^verbatim>\<open>april 2026\<close> and
  \<^verbatim>\<open>May 2026\<close>.
\<close>

definition lower_case :: "char \<Rightarrow> char" where
  "lower_case c =
     (case map_of (zip ''ABCDEFGHIJKLMNOPQRSTUVWXYZ'' ''abcdefghijklmnopqrstuvwxyz'') c of
        Some d \<Rightarrow> d
      | None \<Rightarrow> c)"

definition caseless_compare :: "string \<Rightarrow> string \<Rightarrow> int" where
  "caseless_compare s t = code_unit_compare (map lower_case s) (map lower_case t)"

definition caseless_platform :: platform where
  "caseless_platform = sample_platform\<lparr>localeCompare := caseless_compare\<rparr>"

section \<open>Properties\<close>

subsection \<open>The output directory and the missing template\<close>

lemma cleanDir_DIST_DIR:
  "cleanDir DIST_DIR fs = (AList.update ''dist'' (Dir []) (AList.delete ''dist'' fs), None)"
proof (cases "map_of fs ''dist''")
  case None
  then have "''dist'' \<notin> fst ` set fs" by (simp add: map_of_eq_None_iff)
  with None show ?thesis
    by (simp add: cleanDir_def DIST_DIR_def existsSync_def)
next
  case (Some n)
  then show ?thesis
    by (simp add: cleanDir_def DIST_DIR_def existsSync_def AList.delete_conv')
qed

lemma lookup_cleaned_outside:
  "name \<noteq> ''dist'' \<Longrightarrow>
   lookup (AList.update ''dist'' d (AList.delete ''dist'' fs)) (name # p) = lookup fs (name # p)"
  by (simp add: AList.update_conv' AList.delete_conv')

lemma lookup_cleaned_dist:
  "lookup (AList.update ''dist'' (Dir []) (AList.delete ''dist'' fs)) (''dist'' # p) =
     (if p = [] then Some (Dir []) else None)"
  by (cases p) (simp_all add: AList.update_conv')

lemma build_without_template:
  assumes "lookup fs TEMPLATE = None"
  shows "build pf elapsed fs =
      \<lparr>files = AList.update ''dist'' (Dir []) (AList.delete ''dist'' fs),
       console = [started_line, not_found_line], exit_code = 1\<rparr>"
proof -
  have "lookup (AList.update ''dist'' (Dir []) (AList.delete ''dist'' fs)) TEMPLATE = None"
    using assms by (simp add: TEMPLATE_def AList.update_conv' AList.delete_conv')
  then show ?thesis
    by (simp add: build_def build_index_def cleanDir_DIST_DIR existsSync_def)
qed

text \<open>
  Claim C5. When \<^verbatim>\<open>templates/index.html\<close> does not exist, the process exits with
  status 1 having printed only the opening line and the error line, and the output
  directory holds no file at exit.
\<close>

theorem build_aborts_without_template:
  assumes "lookup fs TEMPLATE = None"
  shows "exit_code (build pf elapsed fs) = 1
       \<and> console (build pf elapsed fs) = [started_line, not_found_line]
       \<and> lookup (files (build pf elapsed fs)) DIST_DIR = Some (Dir [])"
  using build_without_template [OF assms, of pf elapsed]
  by (simp add: DIST_DIR_def AList.update_conv')

theorem build_aborts_without_template_witness:
  "lookup [(''content'', Dir [(''site.json'', File ''{}'')])] TEMPLATE = None
   \<and> exit_code (build sample_platform ''0.01'' [(''content'', Dir [(''site.json'', File ''{}'')])]) = 1
   \<and> console (build sample_platform ''0.01'' [(''content'', Dir [(''site.json'', File ''{}'')])])
       = [started_line, not_found_line]
   \<and> lookup (files (build sample_platform ''0.01'' [(''content'', Dir [(''site.json'', File ''{}'')])]))
        DIST_DIR = Some (Dir [])"
proof -
  have h: "lookup [(''content'', Dir [(''site.json'', File ''{}'')])] TEMPLATE = None"
    by (simp add: TEMPLATE_def)
  show ?thesis
    using h build_aborts_without_template [OF h, of sample_platform "''0.01''"] by simp
qed

text \<open>
  Claim C9. The output directory is removed and created again before the template is
  looked for: after a build that aborts because \<^verbatim>\<open>templates/index.html\<close> is missing,
  the file system is the one \<^verbatim>\<open>cleanDir\<close> left, in which \<^verbatim>\<open>dist\<close> exists and is
  empty (nothing that was below it before is there any more), and everything outside
  \<^verbatim>\<open>dist\<close> is as it was.
\<close>

theorem abort_destroys_prior_output:
  assumes "lookup fs TEMPLATE = None"
  shows "exit_code (build pf elapsed fs) = 1
       \<and> files (build pf elapsed fs) = fst (cleanDir DIST_DIR fs)
       \<and> lookup (files (build pf elapsed fs)) (''dist'' # p) =
           (if p = [] then Some (Dir []) else None)
       \<and> (name \<noteq> ''dist'' \<longrightarrow>
            lookup (files (build pf elapsed fs)) (name # p) = lookup fs (name # p))"
  using build_without_template [OF assms, of pf elapsed]
    lookup_cleaned_dist [of fs p] lookup_cleaned_outside [of name "Dir []" fs p]
  by (simp add: cleanDir_DIST_DIR)

theorem abort_destroys_prior_output_witness:
  "lookup [(''dist'', Dir [(''index.html'', File ''old'')]), (''CNAME'', File ''example.org'')]
     TEMPLATE = None
   \<and> lookup [(''dist'', Dir [(''index.html'', File ''old'')]), (''CNAME'', File ''example.org'')]
       [''dist'', ''index.html''] = Some (File ''old'')
   \<and> exit_code (build sample_platform ''0.01''
        [(''dist'', Dir [(''index.html'', File ''old'')]), (''CNAME'', File ''example.org'')]) = 1
   \<and> lookup (files (build sample_platform ''0.01''
        [(''dist'', Dir [(''index.html'', File ''old'')]), (''CNAME'', File ''example.org'')]))
        [''dist'', ''index.html''] = None
   \<and> lookup (files (build sample_platform ''0.01''
        [(''dist'', Dir [(''index.html'', File ''old'')]), (''CNAME'', File ''example.org'')]))
        [''dist''] = Some (Dir [])
   \<and> lookup (files (build sample_platform ''0.01''
        [(''dist'', Dir [(''index.html'', File ''old'')]), (''CNAME'', File ''example.org'')]))
        [''CNAME''] = Some (File ''example.org'')"
proof -
  let ?fs = "[(''dist'', Dir [(''index.html'', File ''old'')]), (''CNAME'', File ''example.org'')]"
  have h: "lookup ?fs TEMPLATE = None"
    by (simp add: TEMPLATE_def)
  show ?thesis
    using h
      abort_destroys_prior_output [OF h, of sample_platform "''0.01''" "[''index.html'']" "''CNAME''"]
      abort_destroys_prior_output [OF h, of sample_platform "''0.01''" "[]" "''CNAME''"]
    by (simp add: cleanDir_DIST_DIR)
qed

subsection \<open>Searching and replacing\<close>

lemmas token_defs = POSTS_TOKEN_def UNLINKED_TOKEN_def ABOUT_TOKEN_def EMAIL_TOKEN_def

lemmas stringify_defs = JSON_stringify_def QuoteJSONString_def escape_char_def dquote_def
  backslash_def newline_def gap_def

lemmas build_defs = build_def build_index_def build_assets_def build_cname_def uncaught_def
  cleanDir_def ensureDir_def existsSync_def readFileSync_def copyFileSync_def copyDirSync_def
  DIST_DIR_def TEMPLATE_def ASSETS_DIR_def CNAME_def

lemmas inject_defs = injectData_def readPosts_def readJSON_def POSTS_DIR_def endsWith_def
  read_post_def inject_tokens_def String_replace_def contact_email_def or_empty_def
  about_default_def sort_posts_def compare_posts_def date_or_empty_def

lemmas sample_defs = sample_platform_def sample_parse_def code_unit_compare_def

lemma starts_with_iff: "starts_with p s \<longleftrightarrow> (\<exists>r. s = p @ r)"
  by (induction p s rule: starts_with.induct) auto

lemma starts_with_append [simp]: "starts_with p (p @ r)"
  by (simp add: starts_with_iff)


lemma indexOf_Some_split:
  "indexOf s pat = Some i \<Longrightarrow> s = take i s @ pat @ drop (i + length pat) s"
proof (induction s pat arbitrary: i rule: indexOf.induct)
  case (1 pat)
  then show ?case by (simp split: if_splits)
next
  case (2 c cs pat)
  show ?case
  proof (cases "starts_with pat (c # cs)")
    case True
    with 2 have "i = 0" by simp
    moreover from True obtain r where "c # cs = pat @ r" by (auto simp: starts_with_iff)
    ultimately show ?thesis by simp
  next
    case False
    with 2(2) obtain j where j: "indexOf cs pat = Some j" "i = Suc j" by auto
    from 2(1) [OF False j(1)] j(2) show ?thesis by simp
  qed
qed



















text \<open>
  Claim C2. The replacement text is not inserted as it is: \<^verbatim>\<open>replace\<close> reads the
  patterns \<^verbatim>\<open>$$\<close>, \<^verbatim>\<open>$&\<close>, \<^verbatim>\<open>$`\<close> and \<^verbatim>\<open>$'\<close> in it. A post whose title is
  \<^verbatim>\<open>The $$ question\<close> comes out as the serialization of a post whose title is
  \<^verbatim>\<open>The $ question\<close>, which is not the serialization of the post.
\<close>

theorem injected_text_is_interpreted:
  "inject_tokens ''var posts = /*__POSTS_JSON__*/;''
     [JObject [(''title'', JString ''The $$ question'')]] (JArray []) about_default (JObject [])
   = Inr (''var posts = ''
          @ JSON_stringify (JArray [JObject [(''title'', JString ''The $ question'')]]) @ '';'')
   \<and> inject_tokens ''var posts = /*__POSTS_JSON__*/;''
     [JObject [(''title'', JString ''The $$ question'')]] (JArray []) about_default (JObject [])
   \<noteq> Inr (''var posts = ''
          @ JSON_stringify (JArray [JObject [(''title'', JString ''The $$ question'')]]) @ '';'')"
  by (simp add: inject_tokens_def String_replace_def token_defs stringify_defs
      contact_email_def or_empty_def)

subsection \<open>The order of the posts\<close>

lemma date_or_empty_sortable: "sortable p \<Longrightarrow> date_or_empty p = Inr (JString (date_key p))"
  by (cases p)
    (auto simp: sortable_def date_or_empty_def date_key_def or_empty_def is_JString_def
      split: option.splits json.splits)

lemma compare_posts_sortable:
  "sortable a \<Longrightarrow> sortable b \<Longrightarrow> compare_posts lc a b = Inr (lc (date_key b) (date_key a))"
  by (simp add: compare_posts_def date_or_empty_sortable)

lemma collates_mono: "collates_as_code_units lc S \<Longrightarrow> T \<subseteq> S \<Longrightarrow> collates_as_code_units lc T"
  unfolding collates_as_code_units_def by blast

lemma insert_post_sortable:
  assumes "sortable x" "\<forall>y\<in>set ys. sortable y"
    and "collates_as_code_units lc (date_key ` insert x (set ys))"
    and "sorted_wrt (\<lambda>p q. date_key p \<le> date_key q) ys"
  shows "\<exists>r. insert_post lc x ys = Inr r \<and> mset r = add_mset x (mset ys)
           \<and> sorted_wrt (\<lambda>p q. date_key p \<le> date_key q) r
           \<and> (\<forall>k. filter (\<lambda>p. date_key p = k) r = filter (\<lambda>p. date_key p = k) (x # ys))"
  using assms
proof (induction ys)
  case Nil
  then show ?case by simp
next
  case (Cons y ys)
  have cmp: "compare_posts lc x y = Inr (lc (date_key y) (date_key x))"
    using Cons.prems by (simp add: compare_posts_sortable)
  have neg: "(lc (date_key y) (date_key x) < 0) = (date_key y < date_key x)"
    using Cons.prems(3) unfolding collates_as_code_units_def by simp
  show ?case
  proof (cases "date_key y < date_key x")
    case True
    have "collates_as_code_units lc (date_key ` insert x (set ys))"
      using Cons.prems(3) by (rule collates_mono) auto
    with Cons.IH Cons.prems obtain r where r: "insert_post lc x ys = Inr r"
      "mset r = add_mset x (mset ys)"
      "sorted_wrt (\<lambda>p q. date_key p \<le> date_key q) r"
      "\<forall>k. filter (\<lambda>p. date_key p = k) r = filter (\<lambda>p. date_key p = k) (x # ys)"
      by auto
    have "set r = insert x (set ys)"
      using r(2) by (metis set_mset_add_mset_insert set_mset_mset)
    with True Cons.prems(4) r(3)
    have "sorted_wrt (\<lambda>p q. date_key p \<le> date_key q) (y # r)" by auto
    moreover have "\<forall>k. filter (\<lambda>p. date_key p = k) (y # r)
        = filter (\<lambda>p. date_key p = k) (x # y # ys)"
      using r(4) True by auto
    ultimately show ?thesis
      using cmp neg True r(1,2) by simp
  next
    case False
    then have "date_key x \<le> date_key y" by simp
    with Cons.prems(4) have "sorted_wrt (\<lambda>p q. date_key p \<le> date_key q) (x # y # ys)"
      by auto
    then show ?thesis
      using cmp neg False by simp
  qed
qed

lemma undated_last:
  "sorted_wrt (\<lambda>p q. date_key q \<le> date_key p) s \<Longrightarrow>
   filter (\<lambda>p. date_key p \<noteq> []) s @ filter (\<lambda>p. date_key p = []) s = s"
proof (induction s)
  case Nil
  show ?case by simp
next
  case (Cons x xs)
  show ?case
  proof (cases "date_key x = []")
    case True
    with Cons.prems have "\<forall>y\<in>set xs. date_key y = []" by auto
    then have "filter (\<lambda>p. date_key p \<noteq> []) xs = []" "filter (\<lambda>p. date_key p = []) xs = xs"
      by (simp_all add: filter_empty_conv filter_id_conv)
    with True show ?thesis by simp
  next
    case False
    with Cons show ?thesis by simp
  qed
qed

lemma sorted_wrt_rev_date:
  "sorted_wrt (\<lambda>p q. date_key q \<le> date_key p) (rev s) = sorted_wrt (\<lambda>p q. date_key p \<le> date_key q) s"
  by (simp add: sorted_wrt_rev)

lemma sort_from_sortable:
  assumes "list_all sortable placed" and "list_all sortable posts"
    and "collates_as_code_units lc (date_key ` (set placed \<union> set posts))"
    and "sorted_wrt (\<lambda>p q. date_key p \<le> date_key q) placed"
  shows "\<exists>sorted. sort_from lc placed posts = Inr sorted
           \<and> mset sorted = mset placed + mset posts
           \<and> sorted_wrt (\<lambda>p q. date_key q \<le> date_key p) sorted
           \<and> (\<forall>k. filter (\<lambda>p. date_key p = k) sorted
                  = filter (\<lambda>p. date_key p = k) (rev placed @ posts))"
  using assms
proof (induction posts arbitrary: placed)
  case Nil
  then show ?case by (simp add: sorted_wrt_rev_date)
next
  case (Cons x xs)
  have "\<exists>r. insert_post lc x placed = Inr r \<and> mset r = add_mset x (mset placed)
         \<and> sorted_wrt (\<lambda>p q. date_key p \<le> date_key q) r
         \<and> (\<forall>k. filter (\<lambda>p. date_key p = k) r = filter (\<lambda>p. date_key p = k) (x # placed))"
  proof (rule insert_post_sortable)
    show "sortable x" using Cons.prems(2) by simp
    show "\<forall>y\<in>set placed. sortable y" using Cons.prems(1) by (simp add: list_all_iff)
    show "collates_as_code_units lc (date_key ` insert x (set placed))"
      using Cons.prems(3) by (rule collates_mono) auto
    show "sorted_wrt (\<lambda>p q. date_key p \<le> date_key q) placed" by (rule Cons.prems(4))
  qed
  then obtain r where r: "insert_post lc x placed = Inr r" "mset r = add_mset x (mset placed)"
    "sorted_wrt (\<lambda>p q. date_key p \<le> date_key q) r"
    "\<forall>k. filter (\<lambda>p. date_key p = k) r = filter (\<lambda>p. date_key p = k) (x # placed)"
    by blast
  have set_r: "set r = insert x (set placed)"
    using r(2) by (metis set_mset_add_mset_insert set_mset_mset)
  have 1: "list_all sortable r"
    using Cons.prems(1,2) set_r by (simp add: list_all_iff)
  have 2: "list_all sortable xs" using Cons.prems(2) by simp
  have 3: "collates_as_code_units lc (date_key ` (set r \<union> set xs))"
    using Cons.prems(3) by (rule collates_mono) (auto simp: set_r)
  from Cons.IH [OF 1 2 3 r(3)] obtain sorted where s: "sort_from lc r xs = Inr sorted"
    "mset sorted = mset r + mset xs"
    "sorted_wrt (\<lambda>p q. date_key q \<le> date_key p) sorted"
    "\<forall>k. filter (\<lambda>p. date_key p = k) sorted = filter (\<lambda>p. date_key p = k) (rev r @ xs)"
    by blast
  have "filter (\<lambda>p. date_key p = k) (rev r) = filter (\<lambda>p. date_key p = k) (rev placed @ [x])" for k
    using r(4) by (simp add: rev_filter [symmetric] del: filter.simps) simp
  then have "\<forall>k. filter (\<lambda>p. date_key p = k) sorted
      = filter (\<lambda>p. date_key p = k) (rev placed @ x # xs)"
    using s(4) by simp
  with s(1,2,3) r(1,2) show ?case by simp
qed

lemma sort_posts_sortable:
  assumes "list_all sortable posts"
    and "collates_as_code_units lc (date_key ` set posts)"
  shows "\<exists>sorted. sort_posts lc posts = Inr sorted
           \<and> mset sorted = mset posts
           \<and> sorted_wrt (\<lambda>p q. date_key q \<le> date_key p) sorted
           \<and> (\<forall>k. filter (\<lambda>p. date_key p = k) sorted = filter (\<lambda>p. date_key p = k) posts)"
  using sort_from_sortable [of "[]" posts lc] assms by (simp add: sort_posts_def)

text \<open>
  Claim C1, as stated, fails: the sort raises a TypeError on two loaded posts whose
  \<^verbatim>\<open>date\<close> is a number, whichever of the two the engine hands to the comparator as
  \<^verbatim>\<open>b\<close>.
\<close>

theorem sort_posts_type_error:
  "sort_posts code_unit_compare
     [JObject [(''date'', JNumber (Num ''20260207''))],
      JObject [(''date'', JNumber (Num ''20260101''))]] = Inl TypeError"
  by (simp add: sort_posts_def compare_posts_def date_or_empty_def or_empty_def)

text \<open>
  Claim C1, amended. When no loaded post is \<^verbatim>\<open>null\<close>, every \<^verbatim>\<open>date\<close> is a
  string or a value that counts as missing, and the collation orders the dates as the
  lexicographic order of their characters does, the sort returns the same posts ordered
  by date, descending in that order; the comparator takes a missing or empty date as
  the empty string, and the posts with such a date come last; the posts of any one date
  keep the order they were loaded in.
\<close>

theorem sort_posts_descending_stable:
  assumes "list_all sortable posts"
    and "collates_as_code_units lc (date_key ` set posts)"
  shows "\<exists>sorted. sort_posts lc posts = Inr sorted
           \<and> mset sorted = mset posts
           \<and> sorted_wrt (\<lambda>p q. date_key q \<le> date_key p) sorted
           \<and> (\<forall>a\<in>set posts. \<forall>b\<in>set posts.
                 compare_posts lc a b = Inr (lc (date_key b) (date_key a)))
           \<and> filter (\<lambda>p. date_key p \<noteq> []) sorted @ filter (\<lambda>p. date_key p = []) sorted = sorted
           \<and> (\<forall>k. filter (\<lambda>p. date_key p = k) sorted = filter (\<lambda>p. date_key p = k) posts)"
proof -
  have "\<forall>a\<in>set posts. \<forall>b\<in>set posts.
      compare_posts lc a b = Inr (lc (date_key b) (date_key a))"
    using assms(1) by (simp add: list_all_iff compare_posts_sortable)
  with sort_posts_sortable [OF assms] undated_last show ?thesis by blast
qed

theorem sort_posts_descending_stable_witness:
  "list_all sortable
     [JObject [], JObject [(''id'', JString ''a''), (''date'', JString ''2026-01-01'')],
      JObject [(''date'', JString ''2026-02-07'')],
      JObject [(''id'', JString ''b''), (''date'', JString ''2026-01-01'')],
      JObject [(''date'', JNull)]]
   \<and> collates_as_code_units code_unit_compare (date_key ` set
     [JObject [], JObject [(''id'', JString ''a''), (''date'', JString ''2026-01-01'')],
      JObject [(''date'', JString ''2026-02-07'')],
      JObject [(''id'', JString ''b''), (''date'', JString ''2026-01-01'')],
      JObject [(''date'', JNull)]])
   \<and> sort_posts code_unit_compare
     [JObject [], JObject [(''id'', JString ''a''), (''date'', JString ''2026-01-01'')],
      JObject [(''date'', JString ''2026-02-07'')],
      JObject [(''id'', JString ''b''), (''date'', JString ''2026-01-01'')],
      JObject [(''date'', JNull)]]
     = Inr [JObject [(''date'', JString ''2026-02-07'')],
      JObject [(''id'', JString ''a''), (''date'', JString ''2026-01-01'')],
      JObject [(''id'', JString ''b''), (''date'', JString ''2026-01-01'')],
      JObject [], JObject [(''date'', JNull)]]
   \<and> (\<exists>sorted. sort_posts code_unit_compare
     [JObject [], JObject [(''id'', JString ''a''), (''date'', JString ''2026-01-01'')],
      JObject [(''date'', JString ''2026-02-07'')],
      JObject [(''id'', JString ''b''), (''date'', JString ''2026-01-01'')],
      JObject [(''date'', JNull)]] = Inr sorted
      \<and> sorted_wrt (\<lambda>p q. date_key q \<le> date_key p) sorted
      \<and> filter (\<lambda>p. date_key p \<noteq> []) sorted @ filter (\<lambda>p. date_key p = []) sorted = sorted)"
proof -
  let ?ps = "[JObject [], JObject [(''id'', JString ''a''), (''date'', JString ''2026-01-01'')],
      JObject [(''date'', JString ''2026-02-07'')],
      JObject [(''id'', JString ''b''), (''date'', JString ''2026-01-01'')],
      JObject [(''date'', JNull)]]"
  have h1: "list_all sortable ?ps"
    by (simp add: sortable_def is_JString_def)
  have h2: "collates_as_code_units code_unit_compare (date_key ` set ?ps)"
    by (simp add: collates_as_code_units_def code_unit_compare_def date_key_def)
  have h3: "sort_posts code_unit_compare ?ps
     = Inr [JObject [(''date'', JString ''2026-02-07'')],
      JObject [(''id'', JString ''a''), (''date'', JString ''2026-01-01'')],
      JObject [(''id'', JString ''b''), (''date'', JString ''2026-01-01'')],
      JObject [], JObject [(''date'', JNull)]]"
    by (simp add: sort_posts_def compare_posts_def date_or_empty_def or_empty_def
        code_unit_compare_def)
  from sort_posts_descending_stable [OF h1 h2] h1 h2 h3 show ?thesis by blast
qed

subsection \<open>Loading the content\<close>

lemma lookup_head_cong:
  assumes "map_of fs k = map_of fs' k"
  shows "lookup fs (k # p) = lookup fs' (k # p)"
  by (simp only: lookup.simps assms)

lemma readJSON_cong:
  assumes "map_of fs k = map_of fs' k"
  shows "readJSON pf fs (k # p) d = readJSON pf fs' (k # p) d"
  unfolding readJSON_def by (simp only: lookup_head_cong [OF assms])

lemma readPosts_cong:
  assumes "map_of fs ''content'' = map_of fs' ''content''"
  shows "readPosts pf fs = readPosts pf fs'"
  unfolding readPosts_def POSTS_DIR_def by (simp only: lookup_head_cong [OF assms])

lemma injectData_cong:
  assumes "map_of fs ''content'' = map_of fs' ''content''"
  shows "injectData pf fs html = injectData pf fs' html"
  unfolding injectData_def
  by (simp only: readPosts_cong [OF assms] readJSON_cong [OF assms])

lemma readJSON_default:
  assumes "lookup fs p = None
      \<or> (\<exists>c msg. lookup fs p = Some (File c) \<and> JSON_parse pf c = Inl msg)"
  shows "readJSON pf fs p fallback = fallback"
  using assms by (auto simp: readJSON_def)

lemma injectData_console:
  "fst (injectData pf fs html) =
     (case readPosts pf fs of
        (w, Inl e) \<Rightarrow> w
      | (w, Inr posts) \<Rightarrow> w @ [found_line (length posts)])"
  by (simp add: injectData_def Let_def split: prod.splits sum.splits)

lemma inject_tokens_no_site:
  "inject_tokens html posts u a (JObject []) =
     Inr (String_replace
            (String_replace
              (String_replace
                (String_replace html POSTS_TOKEN (JSON_stringify (JArray posts)))
                UNLINKED_TOKEN (JSON_stringify u))
              ABOUT_TOKEN (JSON_stringify a))
            EMAIL_TOKEN [])"
  by (simp add: inject_tokens_def contact_email_def or_empty_def)

text \<open>
  Claim C6. \<^verbatim>\<open>readJSON\<close> returns the default it is given when the file is missing and
  when its text does not parse. The console of the injector holds the warnings of the
  post loader and the line that counts the posts, whatever the singleton documents are:
  nothing is printed for them. When it is \<^verbatim>\<open>content/site.json\<close> that is missing or
  malformed (and the posts were loaded), the injector returns a text, not an error, and
  the last replacement puts the empty string in the place of the contact email token.
\<close>

theorem singleton_defaults:
  assumes "lookup fs p = None
      \<or> (\<exists>c msg. lookup fs p = Some (File c) \<and> JSON_parse pf c = Inl msg)"
  shows "readJSON pf fs p fallback = fallback
       \<and> fst (injectData pf fs html) =
           (case readPosts pf fs of
              (w, Inl e) \<Rightarrow> w
            | (w, Inr posts) \<Rightarrow> w @ [found_line (length posts)])
       \<and> (p = [''content'', ''site.json''] \<and> snd (readPosts pf fs) = Inr posts \<longrightarrow>
            snd (injectData pf fs html) =
              Inr (String_replace
                    (String_replace
                      (String_replace
                        (String_replace html POSTS_TOKEN (JSON_stringify (JArray posts)))
                        UNLINKED_TOKEN
                        (JSON_stringify
                          (readJSON pf fs [''content'', ''unlinked-comments.json''] (JArray []))))
                      ABOUT_TOKEN
                      (JSON_stringify (readJSON pf fs [''content'', ''about.json''] about_default)))
                    EMAIL_TOKEN []))"
proof -
  have "readJSON pf fs p fallback = fallback" for fallback
    using assms by (rule readJSON_default)
  then show ?thesis
    using injectData_console [of pf fs html]
    by (auto simp: injectData_def Let_def inject_tokens_no_site split: prod.splits sum.splits)
qed

theorem singleton_defaults_witness:
  "lookup [(''content'', Dir [(''about.json'', File ''{'')])] [''content'', ''site.json''] = None
   \<and> lookup [(''content'', Dir [(''about.json'', File ''{'')])] [''content'', ''about.json'']
       = Some (File ''{'')
   \<and> JSON_parse sample_platform ''{'' = Inl ''Unexpected end of JSON input''
   \<and> readJSON sample_platform [(''content'', Dir [(''about.json'', File ''{'')])]
       [''content'', ''site.json''] (JObject []) = JObject []
   \<and> readJSON sample_platform [(''content'', Dir [(''about.json'', File ''{'')])]
       [''content'', ''about.json''] about_default = about_default
   \<and> injectData sample_platform [(''content'', Dir [(''about.json'', File ''{'')])]
       ''<a href=mailto:/*__CONTACT_EMAIL__*/>/*__CONTACT_EMAIL__*/</a>''
       = ([found_line 0], Inr ''<a href=mailto:>/*__CONTACT_EMAIL__*/</a>'')"
proof -
  let ?fs = "[(''content'', Dir [(''about.json'', File ''{'')])]"
  have h1: "lookup ?fs [''content'', ''site.json''] = None"
    and h2: "lookup ?fs [''content'', ''about.json''] = Some (File ''{'')"
    by simp_all
  have h3: "JSON_parse sample_platform ''{'' = Inl ''Unexpected end of JSON input''"
    by (simp add: sample_platform_def sample_parse_def)
  have h4: "injectData sample_platform ?fs
       ''<a href=mailto:/*__CONTACT_EMAIL__*/>/*__CONTACT_EMAIL__*/</a>''
       = ([found_line 0], Inr ''<a href=mailto:>/*__CONTACT_EMAIL__*/</a>'')"
    by (simp add: injectData_def readPosts_def POSTS_DIR_def readJSON_def sample_platform_def
        sample_parse_def inject_tokens_def String_replace_def token_defs stringify_defs
        about_default_def contact_email_def or_empty_def)
  from singleton_defaults [of ?fs "[''content'', ''site.json'']" sample_platform "JObject []"]
    singleton_defaults [of ?fs "[''content'', ''about.json'']" sample_platform about_default]
    h1 h2 h3 h4
  show ?thesis by simp
qed

subsection \<open>What the injected text keeps\<close>

lemma join_contains: "x \<in> set xs \<Longrightarrow> \<exists>a b. join sep xs = a @ x @ b"
proof (induction sep xs rule: join.induct)
  case (1 sep)
  then show ?case by simp
next
  case (2 sep y)
  then show ?case by (metis append_Nil append_Nil2 empty_iff empty_set join.simps(2) set_ConsD)
next
  case (3 sep y z zs)
  show ?case
  proof (cases "x = y")
    case True
    then show ?thesis by (metis append_Nil join.simps(3))
  next
    case False
    with 3 obtain a b where "join sep (z # zs) = a @ x @ b" by auto
    then have "join sep (y # z # zs) = (y @ sep @ a) @ x @ b" by simp
    then show ?thesis by blast
  qed
qed

lemma member_serialized:
  "(k, v) \<in> set ms \<Longrightarrow>
   QuoteJSONString k @ '': '' @ SerializeJSONProperty ind v \<in> set (SerializeJSONObject ind ms)"
  by (induction ms) auto

lemma element_serialized:
  "x \<in> set xs \<Longrightarrow> SerializeJSONProperty ind x \<in> set (SerializeJSONArray ind xs)"
  by (induction xs) auto

lemma object_contains_member:
  assumes "(k, v) \<in> set ms"
  shows "\<exists>a b. SerializeJSONProperty ind (JObject ms) =
           a @ (QuoteJSONString k @ '': '' @ SerializeJSONProperty (ind @ gap) v) @ b"
proof -
  from assms have ne: "ms \<noteq> []" by auto
  from join_contains [OF member_serialized [OF assms, of "ind @ gap"],
      of "'','' @ [newline] @ (ind @ gap)"]
  obtain a b where "join ('','' @ [newline] @ (ind @ gap)) (SerializeJSONObject (ind @ gap) ms)
      = a @ (QuoteJSONString k @ '': '' @ SerializeJSONProperty (ind @ gap) v) @ b"
    by blast
  with ne have "SerializeJSONProperty ind (JObject ms) =
      (''{'' @ [newline] @ (ind @ gap) @ a)
      @ (QuoteJSONString k @ '': '' @ SerializeJSONProperty (ind @ gap) v)
      @ (b @ [newline] @ ind @ ''}'')"
    by simp
  then show ?thesis by blast
qed

lemma array_contains_element:
  assumes "x \<in> set xs"
  shows "\<exists>a b. SerializeJSONProperty ind (JArray xs) =
           a @ SerializeJSONProperty (ind @ gap) x @ b"
proof -
  from assms have ne: "xs \<noteq> []" by auto
  from join_contains [OF element_serialized [OF assms, of "ind @ gap"],
      of "'','' @ [newline] @ (ind @ gap)"]
  obtain a b where "join ('','' @ [newline] @ (ind @ gap)) (SerializeJSONArray (ind @ gap) xs)
      = a @ SerializeJSONProperty (ind @ gap) x @ b"
    by blast
  with ne have "SerializeJSONProperty ind (JArray xs) =
      (''['' @ [newline] @ (ind @ gap) @ a) @ SerializeJSONProperty (ind @ gap) x
      @ (b @ [newline] @ ind @ '']'')"
    by simp
  then show ?thesis by blast
qed

lemma stringify_contains_null:
  assumes "JObject members \<in> set posts"
    and "(name, JObject texts) \<in> set members"
    and "(lang, JNull) \<in> set texts"
  shows "\<exists>a b. JSON_stringify (JArray posts) = a @ (QuoteJSONString lang @ '': null'') @ b"
proof -
  obtain a1 b1 where 1: "JSON_stringify (JArray posts) =
      a1 @ SerializeJSONProperty gap (JObject members) @ b1"
    using array_contains_element [OF assms(1), of "[]"] by (auto simp: JSON_stringify_def)
  obtain a2 b2 where 2: "SerializeJSONProperty gap (JObject members) =
      a2 @ (QuoteJSONString name @ '': '' @ SerializeJSONProperty (gap @ gap) (JObject texts)) @ b2"
    using object_contains_member [OF assms(2)] by blast
  obtain a3 b3 where 3: "SerializeJSONProperty (gap @ gap) (JObject texts) =
      a3 @ (QuoteJSONString lang @ '': '' @ SerializeJSONProperty ((gap @ gap) @ gap) JNull) @ b3"
    using object_contains_member [OF assms(3)] by blast
  have "JSON_stringify (JArray posts) =
      a1 @ (a2 @ (QuoteJSONString name @ '': ''
        @ (a3 @ (QuoteJSONString lang @ '': '' @ ''null'') @ b3)) @ b2) @ b1"
    by (simp only: 1 2 3 SerializeJSONProperty.simps(1))
  also have "\<dots> = (a1 @ a2 @ QuoteJSONString name @ '': '' @ a3)
      @ (QuoteJSONString lang @ '': null'') @ (b3 @ b2 @ b1)"
    by simp
  finally show ?thesis by blast
qed

lemma GetSubstitution_plain:
  "CHR ''$'' \<notin> set t \<Longrightarrow> GetSubstitution m p f (t @ b) = t @ GetSubstitution m p f b"
proof (induction t)
  case Nil
  show ?case by simp
next
  case (Cons c t)
  then show ?case by (cases "t @ b") auto
qed

lemma GetSubstitution_keeps:
  assumes "CHR ''$'' \<notin> set t" and "t \<noteq> []"
    and "hd t \<notin> {CHR ''$'', CHR 0x60, CHR ''&'', CHR 0x27}"
  shows "\<exists>a' b'. GetSubstitution m p f (a @ t @ b) = a' @ t @ b'"
proof (induction a rule: induct_list012)
  case 1
  show ?case using GetSubstitution_plain [OF assms(1)] by (metis append_Nil)
next
  case (2 c)
  from assms(2) obtain h t' where t: "t = h # t'" by (cases t) auto
  with assms(3) have "GetSubstitution m p f ([c] @ t @ b) = c # GetSubstitution m p f (t @ b)"
    by simp
  then show ?case using GetSubstitution_plain [OF assms(1), of m p f b]
    by (metis append_Cons append_Nil)
next
  case (3 c d r)
  from 3 obtain a1 b1 a2 b2 where
    1: "GetSubstitution m p f (r @ t @ b) = a1 @ t @ b1" and
    2: "GetSubstitution m p f ((d # r) @ t @ b) = a2 @ t @ b2"
    by blast
  have "GetSubstitution m p f ((c # d # r) @ t @ b) = (CHR ''$'' # a1) @ t @ b1
      \<or> GetSubstitution m p f ((c # d # r) @ t @ b) = (p @ a1) @ t @ b1
      \<or> GetSubstitution m p f ((c # d # r) @ t @ b) = (m @ a1) @ t @ b1
      \<or> GetSubstitution m p f ((c # d # r) @ t @ b) = (f @ a1) @ t @ b1
      \<or> GetSubstitution m p f ((c # d # r) @ t @ b) = (c # a2) @ t @ b2"
    using 1 2 by simp
  then show ?case by blast
qed

lemma GetSubstitution_no_dollar:
  "CHR ''$'' \<notin> set r \<Longrightarrow> GetSubstitution m p f r = r"
  using GetSubstitution_plain [of r m p f "[]"] by simp

lemma String_replace_verbatim:
  assumes "occurs tok s" and "CHR ''$'' \<notin> set r"
  shows "\<exists>pre post. s = pre @ tok @ post \<and> String_replace s tok r = pre @ r @ post"
proof -
  obtain i where i: "indexOf s tok = Some i"
    using assms(1) by (auto simp: occurs_def)
  have "s = take i s @ tok @ drop (i + length tok) s"
    by (rule indexOf_Some_split [OF i])
  moreover have "String_replace s tok r = take i s @ r @ drop (i + length tok) s"
    using i by (simp add: String_replace_def Let_def GetSubstitution_no_dollar [OF assms(2)])
  ultimately show ?thesis by blast
qed

lemma String_replace_keeps:
  assumes "set t \<inter> set tok = {}" and "t \<noteq> []" and "tok \<noteq> []"
  shows "\<exists>a' b'. String_replace (a @ t @ b) tok r = a' @ t @ b'"
proof (cases "indexOf (a @ t @ b) tok")
  case None
  then show ?thesis by (auto simp: String_replace_def)
next
  case (Some i)
  define s where "s = a @ t @ b"
  define P where "P = take i s"
  define Q where "Q = drop (i + length tok) s"
  define G where "G = GetSubstitution tok P Q r"
  have i: "indexOf s tok = Some i" using Some by (simp add: s_def)
  have "s = P @ tok @ Q"
    unfolding P_def Q_def by (rule indexOf_Some_split [OF i])
  then have s: "a @ t @ b = P @ tok @ Q" by (simp add: s_def)
  have "String_replace s tok r = P @ G @ Q"
    using i by (simp add: String_replace_def P_def Q_def G_def Let_def)
  then have res: "String_replace (a @ t @ b) tok r = P @ G @ Q" by (simp add: s_def)
  from s append_eq_append_conv2 [of a "t @ b" P "tok @ Q"] consider
    (A) u where "a = P @ u" "u @ t @ b = tok @ Q"
  | (B) u where "P = a @ u" "t @ b = u @ tok @ Q"
    by blast
  then show ?thesis
  proof cases
    case A
    from A(2) append_eq_append_conv2 [of u "t @ b" tok Q] consider
      (A1) w where "u = tok @ w" "w @ t @ b = Q"
    | (A2) w where "tok = u @ w" "t @ b = w @ Q"
      by blast
    then show ?thesis
    proof cases
      case A1
      with A res have "String_replace (a @ t @ b) tok r = (P @ G @ w) @ t @ b" by simp
      then show ?thesis by blast
    next
      case A2
      show ?thesis
      proof (cases "w = []")
        case True
        with A2 res have "String_replace (a @ t @ b) tok r = (P @ G) @ t @ b" by simp
        then show ?thesis by blast
      next
        case False
        from False A2(2) assms(2) have "hd w \<in> set t" by (metis hd_append2 hd_in_set)
        moreover from False A2(1) have "hd w \<in> set tok"
          by (metis hd_in_set in_set_conv_decomp list.set_intros(1) list.exhaust_sel Un_iff set_append)
        ultimately show ?thesis using assms(1) by auto
      qed
    qed
  next
    case B
    from B(2) append_eq_append_conv2 [of t b u "tok @ Q"] consider
      (B1) w where "t = u @ w" "w @ b = tok @ Q"
    | (B2) w where "u = t @ w" "b = w @ tok @ Q"
      by blast
    then show ?thesis
    proof cases
      case B1
      show ?thesis
      proof (cases "w = []")
        case True
        with B B1 res have "String_replace (a @ t @ b) tok r = a @ t @ (G @ Q)" by simp
        then show ?thesis by blast
      next
        case False
        from False B1(2) assms(3) have "hd w \<in> set tok" by (metis hd_append2 hd_in_set)
        moreover from False B1(1) have "hd w \<in> set t"
          by (metis hd_in_set in_set_conv_decomp list.set_intros(1) list.exhaust_sel Un_iff set_append)
        ultimately show ?thesis using assms(1) by auto
      qed
    next
      case B2
      with B res have "String_replace (a @ t @ b) tok r = a @ t @ (w @ G @ Q)" by simp
      then show ?thesis by blast
    qed
  qed
qed

lemma quote_en: "QuoteJSONString ''en'' = [dquote, CHR ''e'', CHR ''n'', dquote]"
  by (simp add: QuoteJSONString_def escape_char_def dquote_def backslash_def)

lemma quote_es: "QuoteJSONString ''es'' = [dquote, CHR ''e'', CHR ''s'', dquote]"
  by (simp add: QuoteJSONString_def escape_char_def dquote_def backslash_def)

lemma null_member_text:
  assumes "lang = ''en'' \<or> lang = ''es''"
  shows "CHR ''$'' \<notin> set (QuoteJSONString lang @ '': null'')"
    and "QuoteJSONString lang @ '': null'' \<noteq> []"
    and "hd (QuoteJSONString lang @ '': null'') \<notin> {CHR ''$'', CHR 0x60, CHR ''&'', CHR 0x27}"
    and "set (QuoteJSONString lang @ '': null'') \<inter> set UNLINKED_TOKEN = {}"
    and "set (QuoteJSONString lang @ '': null'') \<inter> set ABOUT_TOKEN = {}"
    and "set (QuoteJSONString lang @ '': null'') \<inter> set EMAIL_TOKEN = {}"
  using assms
  by (elim disjE; simp add: quote_en quote_es dquote_def token_defs)+

text \<open>
  A \<^verbatim>\<open>null\<close> in a bilingual field of a post is serialized as the member
  \<^verbatim>\<open>"es": null\<close> (or \<^verbatim>\<open>"en": null\<close>), and where the template holds the posts
  token the text of that member stands in the text the injector returns. When the
  serialized posts hold no dollar sign, the replacement of the posts token puts them in
  the place of the token as they are.
\<close>

lemma null_member_kept:
  assumes "JObject members \<in> set posts"
    and "(name, JObject texts) \<in> set members"
    and "(lang, JNull) \<in> set texts"
    and "lang = ''en'' \<or> lang = ''es''"
    and "occurs POSTS_TOKEN html"
    and "inject_tokens html posts unlinked about site = Inr out"
  shows "QuoteJSONString lang @ '': null'' \<in> set (SerializeJSONObject ind texts)
       \<and> (\<exists>a b. out = a @ (QuoteJSONString lang @ '': null'') @ b)
       \<and> (CHR ''$'' \<notin> set (JSON_stringify (JArray posts)) \<longrightarrow>
            (\<exists>pre post. html = pre @ POSTS_TOKEN @ post
               \<and> String_replace html POSTS_TOKEN (JSON_stringify (JArray posts))
                   = pre @ JSON_stringify (JArray posts) @ post))"
proof -
  let ?t = "QuoteJSONString lang @ '': null''"
  note t = null_member_text [OF assms(4)]
  have ne: "UNLINKED_TOKEN \<noteq> []" "ABOUT_TOKEN \<noteq> []" "EMAIL_TOKEN \<noteq> []"
    by (simp_all add: token_defs)
  have "?t \<in> set (SerializeJSONObject ind texts)"
    using member_serialized [OF assms(3), of ind] by simp
  moreover have "\<exists>a b. out = a @ ?t @ b"
  proof -
    obtain A B where r1: "JSON_stringify (JArray posts) = A @ ?t @ B"
      using stringify_contains_null [OF assms(1,2,3)] by blast
    obtain i where i: "indexOf html POSTS_TOKEN = Some i"
      using assms(5) by (auto simp: occurs_def)
    obtain a' b' where g: "GetSubstitution POSTS_TOKEN (take i html)
        (drop (i + length POSTS_TOKEN) html) (A @ ?t @ B) = a' @ ?t @ b'"
      using GetSubstitution_keeps [OF t(1,2,3)] by blast
    define h1 where "h1 = String_replace html POSTS_TOKEN (JSON_stringify (JArray posts))"
    have "h1 = (take i html @ a') @ ?t @ (b' @ drop (i + length POSTS_TOKEN) html)"
      unfolding h1_def String_replace_def i r1 by (simp only: option.case Let_def g) simp
    then obtain a1 b1 where h1: "h1 = a1 @ ?t @ b1" by blast
    define h2 where "h2 = String_replace h1 UNLINKED_TOKEN (JSON_stringify unlinked)"
    have "\<exists>a2 b2. h2 = a2 @ ?t @ b2"
      unfolding h2_def h1 by (rule String_replace_keeps [OF t(4) t(2) ne(1)])
    then obtain a2 b2 where h2: "h2 = a2 @ ?t @ b2" by blast
    define h3 where "h3 = String_replace h2 ABOUT_TOKEN (JSON_stringify about)"
    have "\<exists>a3 b3. h3 = a3 @ ?t @ b3"
      unfolding h3_def h2 by (rule String_replace_keeps [OF t(5) t(2) ne(2)])
    then obtain a3 b3 where h3: "h3 = a3 @ ?t @ b3" by blast
    obtain email where "out = String_replace h3 EMAIL_TOKEN email"
      using assms(6) unfolding inject_tokens_def Let_def h1_def h2_def h3_def
      by (auto split: sum.splits)
    then show ?thesis
      unfolding h3 by (simp only: String_replace_keeps [OF t(6) t(2) ne(3)])
  qed
  ultimately show ?thesis
    using String_replace_verbatim [OF assms(5)] by blast
qed

text \<open>
  Claim C8. The bilingual field is not kept as it is when its other member holds a
  pattern of \<^verbatim>\<open>replace\<close>: for the field \<^verbatim>\<open>{ "en": "a$$b", "es": null }\<close> the
  serialized posts hold \<^verbatim>\<open>"en": "a$$b"\<close>, and the text the injector returns
  holds \<^verbatim>\<open>"en": "a$b"\<close> beside \<^verbatim>\<open>"es": null\<close>.
\<close>

theorem bilingual_field_altered:
  \<open>JSON_stringify (JArray [JObject [(''id'', JString ''p1''),
       (''title'', JObject [(''en'', JString ''a$$b''), (''es'', JNull)])]])
     = ''['' @ [CHR 0x0A] @ ''  {'' @ [CHR 0x0A]
       @ ''    "id": "p1",'' @ [CHR 0x0A]
       @ ''    "title": {'' @ [CHR 0x0A]
       @ ''      "en": "a$$b",'' @ [CHR 0x0A]
       @ ''      "es": null'' @ [CHR 0x0A]
       @ ''    }'' @ [CHR 0x0A] @ ''  }'' @ [CHR 0x0A] @ '']''
   \<and> inject_tokens ''const POSTS = /*__POSTS_JSON__*/;''
       [JObject [(''id'', JString ''p1''),
          (''title'', JObject [(''en'', JString ''a$$b''), (''es'', JNull)])]]
       (JArray []) about_default (JObject [])
     = Inr (''const POSTS = ['' @ [CHR 0x0A] @ ''  {'' @ [CHR 0x0A]
            @ ''    "id": "p1",'' @ [CHR 0x0A]
            @ ''    "title": {'' @ [CHR 0x0A]
            @ ''      "en": "a$b",'' @ [CHR 0x0A]
            @ ''      "es": null'' @ [CHR 0x0A]
            @ ''    }'' @ [CHR 0x0A] @ ''  }'' @ [CHR 0x0A] @ ''];'')\<close>
  by (simp add: inject_tokens_def String_replace_def token_defs stringify_defs
      contact_email_def or_empty_def about_default_def)

subsection \<open>What the output depends on\<close>

lemma confinedI:
  assumes "\<And>fs k. k \<noteq> d \<Longrightarrow> map_of (fst (op fs)) k = map_of fs k"
    and "\<And>fs fs'. map_of fs d = map_of fs' d \<Longrightarrow>
           map_of (fst (op fs)) d = map_of (fst (op fs')) d \<and> snd (op fs) = snd (op fs')"
  shows "confined d op"
  using assms unfolding confined_def by blast

lemma confined_frame: "confined d op \<Longrightarrow> k \<noteq> d \<Longrightarrow> map_of (fst (op fs)) k = map_of fs k"
  unfolding confined_def by blast

lemma confined_local:
  "confined d op \<Longrightarrow> map_of fs d = map_of fs' d \<Longrightarrow>
   map_of (fst (op fs)) d = map_of (fst (op fs')) d \<and> snd (op fs) = snd (op fs')"
  unfolding confined_def by blast

lemma confined_writeFileSync: "p \<noteq> [] \<Longrightarrow> confined d (writeFileSync (d # p) c)"
  by (rule confinedI)
    (auto simp: AList.update_conv' split: option.splits node.splits prod.splits)

lemma confined_mkdirSync: "confined d (mkdirSync (d # p))"
  by (rule confinedI)
    (auto simp: AList.update_conv' split: option.splits node.splits prod.splits)

lemma confined_ensureDir: "confined d (ensureDir (d # p))"
proof (rule confinedI)
  fix fs k assume "k \<noteq> (d :: string)"
  then show "map_of (fst (ensureDir (d # p) fs)) k = map_of fs k"
    using confined_frame [OF confined_mkdirSync, of k d p fs] by (simp add: ensureDir_def)
next
  fix fs fs' :: entries assume a: "map_of fs d = map_of fs' d"
  have "existsSync fs (d # p) = existsSync fs' (d # p)"
    unfolding existsSync_def by (simp only: lookup_head_cong [OF a])
  then show "map_of (fst (ensureDir (d # p) fs)) d = map_of (fst (ensureDir (d # p) fs')) d
      \<and> snd (ensureDir (d # p) fs) = snd (ensureDir (d # p) fs')"
    using confined_local [OF confined_mkdirSync a, of p] a by (simp add: ensureDir_def)
qed

lemma confined_seq:
  assumes "confined d op1" and "confined d op2"
  shows "confined d (\<lambda>fs. case op1 fs of (fs', Some e) \<Rightarrow> (fs', Some e) | (fs', None) \<Rightarrow> op2 fs')"
proof (rule confinedI)
  fix fs k assume k: "k \<noteq> d"
  show "map_of (fst (case op1 fs of (fs', Some e) \<Rightarrow> (fs', Some e) | (fs', None) \<Rightarrow> op2 fs')) k
      = map_of fs k"
    using confined_frame [OF assms(1) k, of fs] confined_frame [OF assms(2) k, of "fst (op1 fs)"]
    by (auto split: prod.splits option.splits)
next
  fix fs fs' :: entries assume a: "map_of fs d = map_of fs' d"
  from confined_local [OF assms(1) a]
  have 1: "map_of (fst (op1 fs)) d = map_of (fst (op1 fs')) d" "snd (op1 fs) = snd (op1 fs')"
    by simp_all
  from confined_local [OF assms(2) 1(1)]
  have 2: "map_of (fst (op2 (fst (op1 fs)))) d = map_of (fst (op2 (fst (op1 fs')))) d"
    "snd (op2 (fst (op1 fs))) = snd (op2 (fst (op1 fs')))"
    by simp_all
  show "map_of (fst (case op1 fs of (fs', Some e) \<Rightarrow> (fs', Some e) | (fs', None) \<Rightarrow> op2 fs')) d
      = map_of (fst (case op1 fs' of (fs', Some e) \<Rightarrow> (fs', Some e) | (fs', None) \<Rightarrow> op2 fs')) d
    \<and> snd (case op1 fs of (fs', Some e) \<Rightarrow> (fs', Some e) | (fs', None) \<Rightarrow> op2 fs')
      = snd (case op1 fs' of (fs', Some e) \<Rightarrow> (fs', Some e) | (fs', None) \<Rightarrow> op2 fs')"
    using 1 2 by (cases "op1 fs"; cases "op1 fs'") (auto split: option.splits)
qed

lemma confined_done: "confined d (\<lambda>fs. (fs, None))"
  by (rule confinedI) simp_all

lemma copy_entries_Nil_fun: "copy_entries [] dest = (\<lambda>fs. (fs, None))"
  by (rule ext) simp

lemma copy_entries_File_fun:
  "copy_entries ((name, File c) # rest) dest =
     (\<lambda>fs. case writeFileSync (dest @ [name]) c fs of
            (fs', Some e) \<Rightarrow> (fs', Some e) | (fs', None) \<Rightarrow> copy_entries rest dest fs')"
  by (rule ext) simp

lemma copy_entries_Dir_fun:
  "copy_entries ((name, Dir sub) # rest) dest =
     (\<lambda>fs. case (case ensureDir (dest @ [name]) fs of
                   (fs', Some e) \<Rightarrow> (fs', Some e)
                 | (fs', None) \<Rightarrow> copy_entries sub (dest @ [name]) fs') of
            (fs'', Some e) \<Rightarrow> (fs'', Some e) | (fs'', None) \<Rightarrow> copy_entries rest dest fs'')"
  by (rule ext) (simp split: prod.splits option.splits)

lemma confined_copy_node:
  "\<forall>es. n = Dir es \<longrightarrow> (\<forall>p. confined d (copy_entries es (d # p)))"
proof (induction n)
  case (File c)
  show ?case by simp
next
  case (Dir es0)
  have "\<forall>p. confined d (copy_entries es (d # p))" if "set es \<subseteq> set es0" for es
    using that
  proof (induction es)
    case Nil
    show ?case by (simp add: copy_entries_Nil_fun confined_done)
  next
    case (Cons e es)
    obtain name n where e: "e = (name, n)" by (cases e)
    from Cons have rest: "\<forall>p. confined d (copy_entries es (d # p))" by simp
    show ?case
    proof (cases n)
      case (File c)
      show ?thesis
        unfolding e File copy_entries_File_fun
        using confined_seq [OF confined_writeFileSync] rest by simp
    next
      case (Dir sub)
      have "(name, Dir sub) \<in> set es0" using Cons.prems e Dir by simp
      then have sub: "\<forall>p. confined d (copy_entries sub (d # p))"
        using Dir.IH [of "(name, Dir sub)" "Dir sub"] by simp
      show ?thesis
        unfolding e Dir copy_entries_Dir_fun
        using confined_seq [OF confined_seq [OF confined_ensureDir]] sub rest by simp
    qed
  qed
  then show ?case by simp
qed

lemma confined_copy_entries: "confined d (copy_entries es (d # p))"
  using confined_copy_node [of "Dir es" d] by simp

lemma confined_fail: "confined d (\<lambda>fs. (fs, Some e))"
  by (rule confinedI) simp_all

lemma confined_copyFile:
  "p \<noteq> [] \<Longrightarrow> confined d (\<lambda>fs. case v of Some (File c) \<Rightarrow> writeFileSync (d # p) c fs
                                       | _ \<Rightarrow> (fs, Some IOError))"
  by (cases v; cases "the v")
    (simp_all add: confined_fail confined_writeFileSync del: writeFileSync.simps)

lemma confined_copyDir:
  "confined d (\<lambda>fs. case v of
        None \<Rightarrow> (fs, None)
      | Some n \<Rightarrow>
          (case ensureDir (d # p) fs of
             (fs', Some e) \<Rightarrow> (fs', Some e)
           | (fs', None) \<Rightarrow>
               (case n of
                  File c \<Rightarrow> (fs', Some IOError)
                | Dir es \<Rightarrow> copy_entries es (d # p) fs')))"
proof (cases v)
  case None
  then show ?thesis by (simp add: confined_done)
next
  case (Some n)
  show ?thesis
  proof (cases n)
    case (File c)
    have "confined d (\<lambda>fs. case ensureDir (d # p) fs of
        (fs', Some e) \<Rightarrow> (fs', Some e)
      | (fs', None) \<Rightarrow> (\<lambda>fs'. (fs', Some IOError)) fs')"
      by (rule confined_seq [OF confined_ensureDir confined_fail])
    with Some File show ?thesis by simp
  next
    case (Dir es)
    have "confined d (\<lambda>fs. case ensureDir (d # p) fs of
        (fs', Some e) \<Rightarrow> (fs', Some e)
      | (fs', None) \<Rightarrow> copy_entries es (d # p) fs')"
      by (rule confined_seq [OF confined_ensureDir confined_copy_entries])
    with Some Dir show ?thesis by simp
  qed
qed

lemma build_cname_same:
  assumes c: "map_of fs ''CNAME'' = map_of fs' ''CNAME''"
    and d: "map_of fs ''dist'' = map_of fs' ''dist''"
  shows "same_output (build_cname e fs con) (build_cname e' fs' con')"
proof -
  have l: "lookup fs CNAME = lookup fs' CNAME"
    unfolding CNAME_def by (rule lookup_head_cong [OF c])
  note w = confined_local [OF confined_copyFile [where d = "''dist''" and v = "lookup fs CNAME" and p = "[''CNAME'']"] d]
  show ?thesis
    using l w
    by (auto simp: same_output_def build_cname_def existsSync_def copyFileSync_def DIST_DIR_def
        uncaught_def d split: prod.splits option.splits)
qed

lemma build_cname_frame:
  assumes "k \<noteq> ''dist''"
  shows "map_of (files (build_cname e fs con)) k = map_of fs k"
  using confined_frame [OF confined_copyFile [where d = "''dist''" and v = "lookup fs CNAME" and p = "[''CNAME'']"] assms,
      of fs]
  by (auto simp: build_cname_def copyFileSync_def DIST_DIR_def uncaught_def
      split: prod.splits option.splits)

lemma build_assets_same:
  assumes a: "map_of fs ''assets'' = map_of fs' ''assets''"
    and c: "map_of fs ''CNAME'' = map_of fs' ''CNAME''"
    and d: "map_of fs ''dist'' = map_of fs' ''dist''"
  shows "same_output (build_assets e fs con) (build_assets e' fs' con')"
proof -
  have l: "lookup fs ASSETS_DIR = lookup fs' ASSETS_DIR"
    unfolding ASSETS_DIR_def by (rule lookup_head_cong [OF a])
  note cd = confined_copyDir [where d = "''dist''" and v = "lookup fs ASSETS_DIR" and p = "[''assets'']"]
  have copy: "copyDirSync ASSETS_DIR (DIST_DIR @ [''assets'']) x =
      (case lookup fs ASSETS_DIR of
        None \<Rightarrow> (x, None)
      | Some n \<Rightarrow>
          (case ensureDir (''dist'' # [''assets'']) x of
             (fs', Some e) \<Rightarrow> (fs', Some e)
           | (fs', None) \<Rightarrow>
               (case n of
                  File c \<Rightarrow> (fs', Some IOError)
                | Dir es \<Rightarrow> copy_entries es (''dist'' # [''assets'']) fs')))"
    if "lookup x ASSETS_DIR = lookup fs ASSETS_DIR" for x
    using that by (simp add: copyDirSync_def DIST_DIR_def)
  obtain x err where x: "copyDirSync ASSETS_DIR (DIST_DIR @ [''assets'']) fs = (x, err)"
    by (cases "copyDirSync ASSETS_DIR (DIST_DIR @ [''assets'']) fs")
  obtain x' err' where x': "copyDirSync ASSETS_DIR (DIST_DIR @ [''assets'']) fs' = (x', err')"
    by (cases "copyDirSync ASSETS_DIR (DIST_DIR @ [''assets'']) fs'")
  from confined_local [OF cd d] x x' copy [of fs] copy [of fs'] l
  have same: "map_of x ''dist'' = map_of x' ''dist''" "err = err'" by simp_all
  from confined_frame [OF cd, of "''CNAME''" fs] confined_frame [OF cd, of "''CNAME''" fs']
    x x' copy [of fs] copy [of fs'] l c
  have cn: "map_of x ''CNAME'' = map_of x' ''CNAME''" by simp
  have ex: "existsSync fs ASSETS_DIR = existsSync fs' ASSETS_DIR"
    by (simp add: existsSync_def l)
  show ?thesis
  proof (cases "existsSync fs ASSETS_DIR")
    case False
    with ex show ?thesis
      using build_cname_same [OF c d] by (simp add: build_assets_def)
  next
    case True
    show ?thesis
    proof (cases err)
      case None
      then have e: "err = None" "err' = None" using same(2) by simp_all
      show ?thesis
        using True ex build_cname_same [OF cn same(1)]
        by (simp add: build_assets_def x x' e)
    next
      case (Some e0)
      then have e: "err = Some e0" "err' = Some e0" using same(2) by simp_all
      show ?thesis
        using True ex same(1)
        by (simp add: build_assets_def uncaught_def same_output_def x x' e)
    qed
  qed
qed

lemma build_assets_frame:
  assumes "k \<noteq> ''dist''"
  shows "map_of (files (build_assets e fs con)) k = map_of fs k"
proof -
  note cd = confined_copyDir [where d = "''dist''" and v = "lookup fs ASSETS_DIR" and p = "[''assets'']"]
  have "map_of (fst (copyDirSync ASSETS_DIR (DIST_DIR @ [''assets'']) fs)) k = map_of fs k"
    using confined_frame [OF cd assms, of fs] by (simp add: copyDirSync_def DIST_DIR_def)
  then show ?thesis
    using build_cname_frame [OF assms]
    by (auto simp: build_assets_def uncaught_def split: prod.splits option.splits)
qed

text \<open>
  What the injector returns depends on the platform through the parser and through the
  sign of the collation only.
\<close>

lemma read_post_platform:
  assumes "JSON_parse pf = JSON_parse pf'"
  shows "(\<exists>msg msg'. read_post pf n = Inl msg \<and> read_post pf' n = Inl msg')
       \<or> (\<exists>v. read_post pf n = Inr v \<and> read_post pf' n = Inr v)"
proof (cases n)
  case (File c)
  then show ?thesis
    using assms by (cases "JSON_parse pf' c") (simp_all add: read_post_def)
next
  case (Dir es)
  then show ?thesis by (simp add: read_post_def)
qed

lemma load_posts_platform:
  assumes "JSON_parse pf = JSON_parse pf'"
  shows "snd (load_posts pf es (w, ps)) = snd (load_posts pf' es (w', ps))"
proof (induction es arbitrary: w w' ps)
  case Nil
  show ?case by simp
next
  case (Cons e es)
  obtain f n where e: "e = (f, n)" by (cases e)
  from read_post_platform [OF assms, of n] show ?case
  proof (elim disjE exE conjE)
    fix msg msg' assume "read_post pf n = Inl msg" "read_post pf' n = Inl msg'"
    then show ?thesis
      using e Cons.IH [of "w @ [Warn (warning_line f msg)]" ps "w' @ [Warn (warning_line f msg')]"]
      by simp
  next
    fix v assume "read_post pf n = Inr v" "read_post pf' n = Inr v"
    then show ?thesis
      using e Cons.IH [of w "ps @ [v]" w'] by simp
  qed
qed

lemma sgn_negative: "sgn (x :: int) = sgn y \<Longrightarrow> (x < 0) = (y < 0)"
  by (auto simp: sgn_if split: if_splits)

lemma compare_posts_sign:
  assumes "\<forall>s t. sgn (lc s t) = sgn (lc' s t)"
  shows "(\<exists>e. compare_posts lc a b = Inl e \<and> compare_posts lc' a b = Inl e)
       \<or> (\<exists>c c'. compare_posts lc a b = Inr c \<and> compare_posts lc' a b = Inr c'
                 \<and> (c < 0) = (c' < 0))"
proof -
  have "(lc s t < 0) = (lc' s t < 0)" for s t
    using assms by (intro sgn_negative) simp
  then show ?thesis
    by (simp add: compare_posts_def split: sum.splits json.splits)
qed

lemma insert_post_sign:
  assumes "\<forall>s t. sgn (lc s t) = sgn (lc' s t)"
  shows "insert_post lc x ys = insert_post lc' x ys"
proof (induction ys)
  case Nil
  show ?case by simp
next
  case (Cons y ys)
  from compare_posts_sign [OF assms, of x y] Cons show ?case by auto
qed

lemma sort_posts_sign:
  assumes "\<forall>s t. sgn (lc s t) = sgn (lc' s t)"
  shows "sort_posts lc posts = sort_posts lc' posts"
proof -
  have "sort_from lc placed posts = sort_from lc' placed posts" for placed
    by (induction posts arbitrary: placed)
      (simp_all add: insert_post_sign [OF assms] split: sum.splits)
  then show ?thesis by (simp add: sort_posts_def)
qed

lemma readPosts_platform:
  assumes "JSON_parse pf = JSON_parse pf'"
    and "\<forall>s t. sgn (localeCompare pf s t) = sgn (localeCompare pf' s t)"
  shows "snd (readPosts pf fs) = snd (readPosts pf' fs)"
proof (cases "lookup fs POSTS_DIR")
  case None
  then show ?thesis by (simp add: readPosts_def)
next
  case (Some n)
  show ?thesis
  proof (cases n)
    case (File c)
    with Some show ?thesis by (simp add: readPosts_def)
  next
    case (Dir es)
    let ?json = "filter (\<lambda>(f, n). endsWith f ''.json'') es"
    obtain w ps where 1: "load_posts pf ?json ([], []) = (w, ps)"
      by (cases "load_posts pf ?json ([], [])")
    obtain w' ps' where 2: "load_posts pf' ?json ([], []) = (w', ps')"
      by (cases "load_posts pf' ?json ([], [])")
    have "ps' = ps"
      using load_posts_platform [OF assms(1), of ?json "[]" "[]" "[]"] 1 2 by simp
    with Some Dir 1 2 show ?thesis
      by (simp add: readPosts_def sort_posts_sign [OF assms(2)])
  qed
qed

lemma injectData_platform:
  assumes "JSON_parse pf = JSON_parse pf'"
    and "\<forall>s t. sgn (localeCompare pf s t) = sgn (localeCompare pf' s t)"
  shows "snd (injectData pf fs html) = snd (injectData pf' fs html)"
proof -
  have j: "readJSON pf fs p d = readJSON pf' fs p d" for p d
    unfolding readJSON_def assms(1) by (rule refl)
  obtain w r where 1: "readPosts pf fs = (w, r)" by (cases "readPosts pf fs")
  obtain w' r' where 2: "readPosts pf' fs = (w', r')" by (cases "readPosts pf' fs")
  have "r' = r" using readPosts_platform [OF assms, of fs] 1 2 by simp
  with 1 2 show ?thesis
    by (cases r) (simp_all add: injectData_def j)
qed

lemma build_index_same_inj:
  assumes t: "map_of fs ''templates'' = map_of fs' ''templates''"
    and inj: "\<And>html. snd (injectData pf fs html) = snd (injectData pf' fs' html)"
    and a: "map_of fs ''assets'' = map_of fs' ''assets''"
    and c: "map_of fs ''CNAME'' = map_of fs' ''CNAME''"
    and d: "map_of fs ''dist'' = map_of fs' ''dist''"
  shows "same_output (build_index pf e fs) (build_index pf' e' fs')"
proof -
  have l: "lookup fs TEMPLATE = lookup fs' TEMPLATE"
    unfolding TEMPLATE_def by (rule lookup_head_cong [OF t])
  have w: "confined ''dist'' (writeFileSync (''dist'' # [''index.html'']) out)" for out
    by (rule confined_writeFileSync) simp
  show ?thesis
  proof (cases "lookup fs TEMPLATE")
    case None
    with l d show ?thesis
      by (simp add: build_index_def existsSync_def same_output_def)
  next
    case (Some n)
    show ?thesis
    proof (cases n)
      case (Dir es)
      with Some l d show ?thesis
        by (simp add: build_index_def existsSync_def readFileSync_def uncaught_def
            same_output_def)
    next
      case (File html)
      obtain lines r where i: "injectData pf fs html = (lines, r)"
        by (cases "injectData pf fs html")
      obtain lines' r' where i': "injectData pf' fs' html = (lines', r')"
        by (cases "injectData pf' fs' html")
      have r': "r' = r" using inj [of html] i i' by simp
      show ?thesis
      proof (cases r)
        case (Inl e0)
        with Some File l d i i' r' show ?thesis
          by (simp add: build_index_def existsSync_def readFileSync_def uncaught_def
              same_output_def)
      next
        case (Inr out)
        obtain x err where x: "writeFileSync (DIST_DIR @ [''index.html'']) out fs = (x, err)"
          by (cases "writeFileSync (DIST_DIR @ [''index.html'']) out fs")
        obtain x' err' where x': "writeFileSync (DIST_DIR @ [''index.html'']) out fs' = (x', err')"
          by (cases "writeFileSync (DIST_DIR @ [''index.html'']) out fs'")
        from confined_local [OF w d, of out] x x'
        have same: "map_of x ''dist'' = map_of x' ''dist''" "err = err'"
          by (simp_all add: DIST_DIR_def del: writeFileSync.simps)
        have fr: "map_of x k = map_of fs k" "map_of x' k = map_of fs' k" if "k \<noteq> ''dist''" for k
          using confined_frame [OF w that, of out fs] confined_frame [OF w that, of out fs']
            x x'
          by (simp_all add: DIST_DIR_def del: writeFileSync.simps)
        have xa: "map_of x ''assets'' = map_of x' ''assets''"
          and xc: "map_of x ''CNAME'' = map_of x' ''CNAME''"
          using fr a c by simp_all
        show ?thesis
        proof (cases err)
          case None
          then have e: "err = None" "err' = None" using same(2) by simp_all
          show ?thesis
            using Some File l i i' r' Inr build_assets_same [OF xa xc same(1)]
            by (simp add: build_index_def existsSync_def readFileSync_def x x' e)
        next
          case (Some e0)
          then have e: "err = Some e0" "err' = Some e0" using same(2) by simp_all
          show ?thesis
            using \<open>lookup fs TEMPLATE = Some n\<close> File l i i' r' Inr same(1)
            by (simp add: build_index_def existsSync_def readFileSync_def x x' e uncaught_def
                same_output_def)
        qed
      qed
    qed
  qed
qed

lemma build_index_frame:
  assumes "k \<noteq> ''dist''"
  shows "map_of (files (build_index pf e fs)) k = map_of fs k"
proof -
  have w: "confined ''dist'' (writeFileSync (''dist'' # [''index.html'']) out)" for out
    by (rule confined_writeFileSync) simp
  have "map_of x k = map_of fs k"
    if "writeFileSync (DIST_DIR @ [''index.html'']) out fs = (x, err)" for out x err
    using confined_frame [OF w assms, of out fs] that
    by (simp add: DIST_DIR_def del: writeFileSync.simps)
  then show ?thesis
    using build_assets_frame [OF assms]
    by (auto simp: build_index_def uncaught_def split: prod.splits option.splits sum.splits)
qed

lemma build_same_inj:
  assumes t: "map_of fs ''templates'' = map_of fs' ''templates''"
    and inj: "\<And>html. snd (injectData pf fs html) = snd (injectData pf' fs' html)"
    and a: "map_of fs ''assets'' = map_of fs' ''assets''"
    and c: "map_of fs ''CNAME'' = map_of fs' ''CNAME''"
  shows "same_output (build pf e fs) (build pf' e' fs')"
proof -
  let ?c = "\<lambda>fs. AList.update ''dist'' (Dir []) (AList.delete ''dist'' fs)"
  have k: "map_of (?c x) k = map_of x k" if "k \<noteq> ''dist''" for x :: entries and k
    using that by (simp add: AList.update_conv' AList.delete_conv')
  have "snd (injectData pf (?c fs) html) = snd (injectData pf' (?c fs') html)" for html
    using injectData_cong [of "?c fs" fs pf html] injectData_cong [of "?c fs'" fs' pf' html]
      inj [of html] k by simp
  then have "same_output (build_index pf e (?c fs)) (build_index pf' e' (?c fs'))"
    using t a c k by (intro build_index_same_inj) (simp_all add: AList.update_conv')
  then show ?thesis
    by (simp add: build_def cleanDir_DIST_DIR)
qed

lemma build_same:
  assumes "map_of fs ''templates'' = map_of fs' ''templates''"
    and "map_of fs ''content'' = map_of fs' ''content''"
    and "map_of fs ''assets'' = map_of fs' ''assets''"
    and "map_of fs ''CNAME'' = map_of fs' ''CNAME''"
    and "JSON_parse pf = JSON_parse pf'"
    and "\<forall>s t. sgn (localeCompare pf s t) = sgn (localeCompare pf' s t)"
  shows "same_output (build pf e fs) (build pf' e' fs')"
  using assms(1,3,4)
  by (intro build_same_inj)
    (simp_all add: injectData_cong [OF assms(2)] injectData_platform [OF assms(5,6)])

lemma build_frame:
  assumes "k \<noteq> ''dist''"
  shows "map_of (files (build pf e fs)) k = map_of fs k"
  using assms build_index_frame [OF assms]
  by (simp add: build_def cleanDir_DIST_DIR AList.update_conv' AList.delete_conv')

text \<open>
  Claim C7, as stated, fails: the order of the posts in \<^verbatim>\<open>dist/index.html\<close> is the
  one \<^verbatim>\<open>localeCompare\<close> gives, which is called without a locale and follows the
  one of the process. On the same input files, two runs whose collations disagree on
  the dates of two posts leave different output directories.
\<close>

theorem output_depends_on_collation:
  \<open>JSON_parse caseless_platform = JSON_parse sample_platform
   \<and> EISDIR_message caseless_platform = EISDIR_message sample_platform
   \<and> lookup (files (build sample_platform ''0.01''
       [(''templates'', Dir [(''index.html'', File ''var posts = /*__POSTS_JSON__*/;'')]),
        (''content'', Dir [(''posts'', Dir [(''a.json'', File ''{"date":"april 2026"}''),
                                          (''b.json'', File ''{"date":"May 2026"}'')])])]))
       DIST_DIR
     = Some (Dir [(''index.html'', File
         (''var posts = ['' @ [CHR 0x0A]
          @ ''  {'' @ [CHR 0x0A] @ ''    "date": "april 2026"'' @ [CHR 0x0A] @ ''  },'' @ [CHR 0x0A]
          @ ''  {'' @ [CHR 0x0A] @ ''    "date": "May 2026"'' @ [CHR 0x0A] @ ''  }'' @ [CHR 0x0A]
          @ ''];''))])
   \<and> lookup (files (build caseless_platform ''0.01''
       [(''templates'', Dir [(''index.html'', File ''var posts = /*__POSTS_JSON__*/;'')]),
        (''content'', Dir [(''posts'', Dir [(''a.json'', File ''{"date":"april 2026"}''),
                                          (''b.json'', File ''{"date":"May 2026"}'')])])]))
       DIST_DIR
     = Some (Dir [(''index.html'', File
         (''var posts = ['' @ [CHR 0x0A]
          @ ''  {'' @ [CHR 0x0A] @ ''    "date": "May 2026"'' @ [CHR 0x0A] @ ''  },'' @ [CHR 0x0A]
          @ ''  {'' @ [CHR 0x0A] @ ''    "date": "april 2026"'' @ [CHR 0x0A] @ ''  }'' @ [CHR 0x0A]
          @ ''];''))])\<close>
  by (simp add: caseless_platform_def caseless_compare_def lower_case_def build_defs inject_defs
      sample_defs token_defs stringify_defs)

text \<open>
  Claim C7, amended. For a parser and a collation that are the same in both runs (of the
  collation, the sign it gives each pair of texts), the output directory and the exit
  status are a function of the four inputs (\<^verbatim>\<open>templates\<close>, \<^verbatim>\<open>content\<close>,
  \<^verbatim>\<open>assets\<close>, \<^verbatim>\<open>CNAME\<close>, each with its contents and listing): two runs on
  file systems that agree on them leave the same \<^verbatim>\<open>dist\<close>, whatever else the file
  systems hold (an earlier \<^verbatim>\<open>dist\<close> included) and whatever the elapsed time of each
  run is; so a second run, on the file system the first one left, leaves \<^verbatim>\<open>dist\<close>
  as the first one did.
\<close>

theorem build_deterministic:
  assumes "lookup fs [''templates''] = lookup fs' [''templates'']"
    and "lookup fs [''content''] = lookup fs' [''content'']"
    and "lookup fs [''assets''] = lookup fs' [''assets'']"
    and "lookup fs [''CNAME''] = lookup fs' [''CNAME'']"
    and "JSON_parse pf = JSON_parse pf'"
    and "\<forall>s t. sgn (localeCompare pf s t) = sgn (localeCompare pf' s t)"
  shows "lookup (files (build pf elapsed fs)) DIST_DIR
           = lookup (files (build pf' elapsed' fs')) DIST_DIR
       \<and> exit_code (build pf elapsed fs) = exit_code (build pf' elapsed' fs')
       \<and> lookup (files (build pf' elapsed' (files (build pf elapsed fs)))) DIST_DIR
           = lookup (files (build pf elapsed fs)) DIST_DIR
       \<and> exit_code (build pf' elapsed' (files (build pf elapsed fs)))
           = exit_code (build pf elapsed fs)"
proof -
  have p: "JSON_parse pf' = JSON_parse pf"
    and l: "\<forall>s t. sgn (localeCompare pf' s t) = sgn (localeCompare pf s t)"
    using assms(5,6) by simp_all
  have 1: "same_output (build pf elapsed fs) (build pf' elapsed' fs')"
    using assms by (intro build_same) simp_all
  have 2: "same_output (build pf' elapsed' (files (build pf elapsed fs))) (build pf elapsed fs)"
    using p l by (intro build_same) (simp_all add: build_frame)
  from 1 2 show ?thesis
    by (simp add: same_output_def DIST_DIR_def)
qed

theorem build_deterministic_witness:
  \<open>lookup
      [(''templates'', Dir [(''index.html'', File ''var posts = /*__POSTS_JSON__*/;'')]),
       (''content'', Dir [(''posts'', Dir [(''a.json'', File ''{"date":"2026-01-01"}''),
                                         (''b.json'', File ''{"date":"2026-02-07"}'')])]),
       (''assets'', Dir [(''style.css'', File ''body{}''),
                         (''img'', Dir [(''logo.svg'', File ''<svg/>'')])]),
       (''CNAME'', File ''gxwechsler.com'')] [''content'']
    = lookup
      [(''dist'', Dir [(''stale.html'', File ''old'')]),
       (''templates'', Dir [(''index.html'', File ''var posts = /*__POSTS_JSON__*/;'')]),
       (''content'', Dir [(''posts'', Dir [(''a.json'', File ''{"date":"2026-01-01"}''),
                                         (''b.json'', File ''{"date":"2026-02-07"}'')])]),
       (''assets'', Dir [(''style.css'', File ''body{}''),
                         (''img'', Dir [(''logo.svg'', File ''<svg/>'')])]),
       (''CNAME'', File ''gxwechsler.com''), (''notes.txt'', File ''draft'')] [''content'']
   \<and> lookup (files (build sample_platform ''0.01''
      [(''templates'', Dir [(''index.html'', File ''var posts = /*__POSTS_JSON__*/;'')]),
       (''content'', Dir [(''posts'', Dir [(''a.json'', File ''{"date":"2026-01-01"}''),
                                         (''b.json'', File ''{"date":"2026-02-07"}'')])]),
       (''assets'', Dir [(''style.css'', File ''body{}''),
                         (''img'', Dir [(''logo.svg'', File ''<svg/>'')])]),
       (''CNAME'', File ''gxwechsler.com'')])) DIST_DIR
     = Some (Dir [(''index.html'', File
            (''var posts = ['' @ [CHR 0x0A]
             @ ''  {'' @ [CHR 0x0A] @ ''    "date": "2026-02-07"'' @ [CHR 0x0A] @ ''  },''
             @ [CHR 0x0A]
             @ ''  {'' @ [CHR 0x0A] @ ''    "date": "2026-01-01"'' @ [CHR 0x0A] @ ''  }''
             @ [CHR 0x0A] @ ''];'')),
          (''assets'', Dir [(''style.css'', File ''body{}''),
                            (''img'', Dir [(''logo.svg'', File ''<svg/>'')])]),
          (''CNAME'', File ''gxwechsler.com'')])
   \<and> lookup (files (build sample_platform ''0.25''
      [(''dist'', Dir [(''stale.html'', File ''old'')]),
       (''templates'', Dir [(''index.html'', File ''var posts = /*__POSTS_JSON__*/;'')]),
       (''content'', Dir [(''posts'', Dir [(''a.json'', File ''{"date":"2026-01-01"}''),
                                         (''b.json'', File ''{"date":"2026-02-07"}'')])]),
       (''assets'', Dir [(''style.css'', File ''body{}''),
                         (''img'', Dir [(''logo.svg'', File ''<svg/>'')])]),
       (''CNAME'', File ''gxwechsler.com''), (''notes.txt'', File ''draft'')])) DIST_DIR
     = Some (Dir [(''index.html'', File
            (''var posts = ['' @ [CHR 0x0A]
             @ ''  {'' @ [CHR 0x0A] @ ''    "date": "2026-02-07"'' @ [CHR 0x0A] @ ''  },''
             @ [CHR 0x0A]
             @ ''  {'' @ [CHR 0x0A] @ ''    "date": "2026-01-01"'' @ [CHR 0x0A] @ ''  }''
             @ [CHR 0x0A] @ ''];'')),
          (''assets'', Dir [(''style.css'', File ''body{}''),
                            (''img'', Dir [(''logo.svg'', File ''<svg/>'')])]),
          (''CNAME'', File ''gxwechsler.com'')])
   \<and> exit_code (build sample_platform ''0.25''
      [(''dist'', Dir [(''stale.html'', File ''old'')]),
       (''templates'', Dir [(''index.html'', File ''var posts = /*__POSTS_JSON__*/;'')]),
       (''content'', Dir [(''posts'', Dir [(''a.json'', File ''{"date":"2026-01-01"}''),
                                         (''b.json'', File ''{"date":"2026-02-07"}'')])]),
       (''assets'', Dir [(''style.css'', File ''body{}''),
                         (''img'', Dir [(''logo.svg'', File ''<svg/>'')])]),
       (''CNAME'', File ''gxwechsler.com''), (''notes.txt'', File ''draft'')]) = 0\<close>
proof -
  let ?inputs = \<open>[(''templates'', Dir [(''index.html'', File ''var posts = /*__POSTS_JSON__*/;'')]),
       (''content'', Dir [(''posts'', Dir [(''a.json'', File ''{"date":"2026-01-01"}''),
                                         (''b.json'', File ''{"date":"2026-02-07"}'')])]),
       (''assets'', Dir [(''style.css'', File ''body{}''),
                         (''img'', Dir [(''logo.svg'', File ''<svg/>'')])]),
       (''CNAME'', File ''gxwechsler.com'')]\<close>
  let ?fs' = "(''dist'', Dir [(''stale.html'', File ''old'')]) # ?inputs
      @ [(''notes.txt'', File ''draft'')]"
  have h1: "lookup ?inputs [''templates''] = lookup ?fs' [''templates'']"
    and h2: "lookup ?inputs [''content''] = lookup ?fs' [''content'']"
    and h3: "lookup ?inputs [''assets''] = lookup ?fs' [''assets'']"
    and h4: "lookup ?inputs [''CNAME''] = lookup ?fs' [''CNAME'']"
    by simp_all
  have h5: \<open>lookup (files (build sample_platform ''0.01'' ?inputs)) DIST_DIR
     = Some (Dir [(''index.html'', File
            (''var posts = ['' @ [CHR 0x0A]
             @ ''  {'' @ [CHR 0x0A] @ ''    "date": "2026-02-07"'' @ [CHR 0x0A] @ ''  },''
             @ [CHR 0x0A]
             @ ''  {'' @ [CHR 0x0A] @ ''    "date": "2026-01-01"'' @ [CHR 0x0A] @ ''  }''
             @ [CHR 0x0A] @ ''];'')),
          (''assets'', Dir [(''style.css'', File ''body{}''),
                            (''img'', Dir [(''logo.svg'', File ''<svg/>'')])]),
          (''CNAME'', File ''gxwechsler.com'')])\<close>
    and h6: "exit_code (build sample_platform ''0.01'' ?inputs) = 0"
    by (simp_all add: build_defs inject_defs sample_defs token_defs stringify_defs)
  have h7: "JSON_parse sample_platform = JSON_parse sample_platform"
    and h8: "\<forall>s t. sgn (localeCompare sample_platform s t) = sgn (localeCompare sample_platform s t)"
    by simp_all
  from build_deterministic [OF h1 h2 h3 h4 h7 h8, of "''0.01''" "''0.25''"] h2 h5 h6
  show ?thesis by simp
qed

subsection \<open>The writer\<close>

lemma update_fresh: "k \<notin> fst ` set al \<Longrightarrow> AList.update k v al = al @ [(k, v)]"
  by (induction al) auto

lemma update_last_entry:
  "k \<notin> fst ` set al \<Longrightarrow> AList.update k v (al @ [(k, w)]) = al @ [(k, v)]"
  by (induction al) auto

lemma writeFileSync_descend:
  "q \<noteq> [] \<Longrightarrow> map_of fs d = Some (Dir sub) \<Longrightarrow>
   writeFileSync (d # q) c fs =
     (case writeFileSync q c sub of (sub', err) \<Rightarrow> (AList.update d (Dir sub') fs, err))"
  by simp

lemma ensureDir_descend:
  assumes "q \<noteq> []" and "map_of fs d = Some (Dir sub)"
  shows "ensureDir (d # q) fs =
     (case ensureDir q sub of (sub', err) \<Rightarrow> (AList.update d (Dir sub') fs, err))"
proof -
  have "existsSync fs (d # q) = existsSync sub q"
    using assms by (simp add: existsSync_def)
  then show ?thesis
    using assms by (simp add: ensureDir_def AList.update_triv)
qed

lemma copy_entries_descend_aux:
  "dest = d # p \<Longrightarrow> map_of fs d = Some (Dir sub) \<Longrightarrow>
   copy_entries es dest fs =
     (case copy_entries es p sub of (sub', err) \<Rightarrow> (AList.update d (Dir sub') fs, err))"
proof (induction es dest fs arbitrary: p sub rule: copy_entries.induct)
  case (1 dest fs)
  then show ?case by (simp add: AList.update_triv)
next
  case (2 name c rest dest fs)
  obtain sub' err where w: "writeFileSync (p @ [name]) c sub = (sub', err)"
    by (cases "writeFileSync (p @ [name]) c sub")
  have w': "writeFileSync (dest @ [name]) c fs = (AList.update d (Dir sub') fs, err)"
    using writeFileSync_descend [of "p @ [name]" fs d sub c] 2(2,3) w by simp
  show ?case
  proof (cases err)
    case None
    have "map_of (AList.update d (Dir sub') fs) d = Some (Dir sub')"
      by (simp add: AList.update_conv')
    from 2(1) [OF w' [symmetric] None 2(2) this] show ?thesis
      using w w' None by (simp del: writeFileSync.simps split: prod.splits)
  next
    case (Some e)
    then show ?thesis using w w' by (simp del: writeFileSync.simps)
  qed
next
  case (3 name sub0 rest dest fs)
  obtain s1 err1 where e: "ensureDir (p @ [name]) sub = (s1, err1)"
    by (cases "ensureDir (p @ [name]) sub")
  have e': "ensureDir (dest @ [name]) fs = (AList.update d (Dir s1) fs, err1)"
    using ensureDir_descend [of "p @ [name]" fs d sub] 3(3,4) e by simp
  show ?case
  proof (cases err1)
    case (Some e0)
    then show ?thesis using e e' by simp
  next
    case None
    have m1: "map_of (AList.update d (Dir s1) fs) d = Some (Dir s1)"
      by (simp add: AList.update_conv')
    have dn: "dest @ [name] = d # (p @ [name])" using 3(3) by simp
    obtain s2 err2 where c: "copy_entries sub0 (p @ [name]) s1 = (s2, err2)"
      by (cases "copy_entries sub0 (p @ [name]) s1")
    have c': "copy_entries sub0 (dest @ [name]) (AList.update d (Dir s1) fs)
        = (AList.update d (Dir s2) fs, err2)"
      using 3(1) [OF e' [symmetric] None dn m1] c by simp
    show ?thesis
    proof (cases err2)
      case (Some e0)
      then show ?thesis using e e' None c c' by simp
    next
      case None2: None
      have m2: "map_of (AList.update d (Dir s2) fs) d = Some (Dir s2)"
        by (simp add: AList.update_conv')
      from 3(2) [OF e' [symmetric] None c' [symmetric] None2 3(3) m2]
      show ?thesis using e e' None c c' None2 by (simp split: prod.splits)
    qed
  qed
qed

lemma copy_entries_descend:
  "map_of fs d = Some (Dir sub) \<Longrightarrow>
   copy_entries es (d # p) fs =
     (case copy_entries es p sub of (sub', err) \<Rightarrow> (AList.update d (Dir sub') fs, err))"
  by (rule copy_entries_descend_aux) simp_all

lemma copy_entries_root_node:
  "\<forall>es. n = Dir es \<longrightarrow> well_formed n \<longrightarrow>
     (\<forall>d0. fst ` set d0 \<inter> fst ` set es = {} \<longrightarrow> copy_entries es [] d0 = (d0 @ es, None))"
proof (induction n)
  case (File c)
  show ?case by simp
next
  case (Dir es0)
  have "\<forall>d0. fst ` set d0 \<inter> fst ` set es = {} \<longrightarrow> copy_entries es [] d0 = (d0 @ es, None)"
    if "set es \<subseteq> set es0" "distinct (map fst es)" "\<forall>e\<in>set es. well_formed (snd e)" for es
    using that
  proof (induction es)
    case Nil
    show ?case by simp
  next
    case (Cons e es)
    obtain name n where e: "e = (name, n)" by (cases e)
    from Cons.prems e have fresh: "name \<notin> fst ` set es" by force
    from Cons have rest: "\<forall>d0. fst ` set d0 \<inter> fst ` set es = {} \<longrightarrow>
        copy_entries es [] d0 = (d0 @ es, None)"
      by simp
    show ?case
    proof (intro allI impI)
      fix d0 :: entries
      assume dj: "fst ` set d0 \<inter> fst ` set (e # es) = {}"
      then have n0: "name \<notin> fst ` set d0" and dj': "fst ` set d0 \<inter> fst ` set es = {}"
        using e by auto
      then have none: "map_of d0 name = None" by (simp add: map_of_eq_None_iff)
      show "copy_entries (e # es) [] d0 = (d0 @ e # es, None)"
      proof (cases n)
        case (File c)
        have "fst ` set (d0 @ [(name, File c)]) \<inter> fst ` set es = {}"
          using dj' fresh by auto
        with rest have "copy_entries es [] (d0 @ [(name, File c)])
            = ((d0 @ [(name, File c)]) @ es, None)" by blast
        then show ?thesis
          using e File none n0 by (simp add: update_fresh)
      next
        case (Dir sub)
        have "(name, Dir sub) \<in> set es0" using Cons.prems e Dir by simp
        moreover have "well_formed (Dir sub)" using Cons.prems e Dir by simp
        ultimately have sub: "copy_entries sub [] [] = (sub, None)"
          using Dir.IH [of "(name, Dir sub)" "Dir sub"] by simp
        have ens: "ensureDir [name] d0 = (d0 @ [(name, Dir [])], None)"
          using none n0 by (simp add: ensureDir_def existsSync_def update_fresh)
        have "map_of (d0 @ [(name, Dir [])]) name = Some (Dir [])"
          using none by (simp add: map_add_def)
        from copy_entries_descend [OF this, of sub "[]"] sub
        have cp: "copy_entries sub [name] (d0 @ [(name, Dir [])]) = (d0 @ [(name, Dir sub)], None)"
          using n0 by (simp add: update_last_entry)
        have "fst ` set (d0 @ [(name, Dir sub)]) \<inter> fst ` set es = {}"
          using dj' fresh by auto
        with rest have "copy_entries es [] (d0 @ [(name, Dir sub)])
            = ((d0 @ [(name, Dir sub)]) @ es, None)" by blast
        then show ?thesis
          using e Dir ens cp by simp
      qed
    qed
  qed
  then show ?case by auto
qed

lemma copy_entries_root:
  "well_formed (Dir es) \<Longrightarrow> copy_entries es [] [] = (es, None)"
  using copy_entries_root_node [of "Dir es"] by simp

lemma build_to_assets:
  assumes "lookup fs TEMPLATE = Some (File html)"
    and "injectData pf fs html = (lines, Inr out)"
  shows "build pf elapsed fs =
     build_assets elapsed
       (AList.update ''dist'' (Dir [(''index.html'', File out)]) (AList.delete ''dist'' fs))
       (started_line # lines @ [done_line ''index.html''])"
proof -
  let ?fs1 = "AList.update ''dist'' (Dir []) (AList.delete ''dist'' fs)"
  have c: "map_of ?fs1 ''content'' = map_of fs ''content''"
    by (simp add: AList.update_conv' AList.delete_conv')
  have t: "lookup ?fs1 TEMPLATE = Some (File html)"
    using assms(1) by (simp add: TEMPLATE_def AList.update_conv' AList.delete_conv')
  have i: "injectData pf ?fs1 html = (lines, Inr out)"
    using injectData_cong [OF c] assms(2) by simp
  have w: "writeFileSync (DIST_DIR @ [''index.html'']) out ?fs1 =
      (AList.update ''dist'' (Dir [(''index.html'', File out)]) (AList.delete ''dist'' fs), None)"
    by (simp add: DIST_DIR_def AList.update_conv')
  show ?thesis
    by (simp add: build_def cleanDir_DIST_DIR build_index_def existsSync_def readFileSync_def
        t i w del: writeFileSync.simps)
qed

lemma copy_assets:
  assumes "map_of fs ''dist'' = Some (Dir d)" and "''assets'' \<notin> fst ` set d"
    and "lookup fs ASSETS_DIR = Some (Dir es)" and "well_formed (Dir es)"
  shows "copyDirSync ASSETS_DIR (DIST_DIR @ [''assets'']) fs =
     (AList.update ''dist'' (Dir (d @ [(''assets'', Dir es)])) fs, None)"
proof -
  have none: "map_of d ''assets'' = None"
    using assms(2) by (simp add: map_of_eq_None_iff)
  have "ensureDir [''assets''] d = (d @ [(''assets'', Dir [])], None)"
    using none assms(2) by (simp add: ensureDir_def existsSync_def update_fresh)
  then have e: "ensureDir (''dist'' # [''assets'']) fs =
      (AList.update ''dist'' (Dir (d @ [(''assets'', Dir [])])) fs, None)"
    using ensureDir_descend [OF _ assms(1), of "[''assets'']"] by simp
  have m: "map_of (d @ [(''assets'', Dir [])]) ''assets'' = Some (Dir [])"
    using none by (simp add: map_add_def)
  have "copy_entries es [''assets''] (d @ [(''assets'', Dir [])])
      = (d @ [(''assets'', Dir es)], None)"
    using copy_entries_descend [OF m, of es "[]"] copy_entries_root [OF assms(4)] assms(2)
    by (simp add: update_last_entry)
  moreover have "map_of (AList.update ''dist'' (Dir (d @ [(''assets'', Dir [])])) fs) ''dist''
      = Some (Dir (d @ [(''assets'', Dir [])]))"
    by (simp add: AList.update_conv')
  ultimately have c: "copy_entries es (''dist'' # [''assets''])
      (AList.update ''dist'' (Dir (d @ [(''assets'', Dir [])])) fs)
      = (AList.update ''dist'' (Dir (d @ [(''assets'', Dir es)])) fs, None)"
    using copy_entries_descend [of "AList.update ''dist'' (Dir (d @ [(''assets'', Dir [])])) fs"
        "''dist''" "d @ [(''assets'', Dir [])]" es "[''assets'']"]
    by simp
  show ?thesis
    using assms(3) e c by (simp add: copyDirSync_def DIST_DIR_def)
qed

lemma copy_cname:
  assumes "map_of fs ''dist'' = Some (Dir d)" and "''CNAME'' \<notin> fst ` set d"
    and "lookup fs CNAME = Some (File c)"
  shows "copyFileSync CNAME (DIST_DIR @ [''CNAME'']) fs =
     (AList.update ''dist'' (Dir (d @ [(''CNAME'', File c)])) fs, None)"
proof -
  have none: "map_of d ''CNAME'' = None"
    using assms(2) by (simp add: map_of_eq_None_iff)
  then show ?thesis
    using assms by (simp add: copyFileSync_def DIST_DIR_def update_fresh)
qed

lemma build_cname_done:
  assumes "map_of fs ''dist'' = Some (Dir d)" and "''CNAME'' \<notin> fst ` set d"
    and "lookup fs CNAME = None \<or> (\<exists>c. lookup fs CNAME = Some (File c))"
  shows "build_cname elapsed fs con =
     \<lparr>files = AList.update ''dist''
        (Dir (d @ (case lookup fs CNAME of None \<Rightarrow> [] | Some n \<Rightarrow> [(''CNAME'', n)]))) fs,
      console = con @ (case lookup fs CNAME of None \<Rightarrow> [] | Some n \<Rightarrow> [done_line ''CNAME''])
        @ [complete_line elapsed],
      exit_code = 0\<rparr>"
  using assms(3)
proof
  assume "lookup fs CNAME = None"
  then show ?thesis
    using assms(1) by (simp add: build_cname_def existsSync_def AList.update_triv)
next
  assume "\<exists>c. lookup fs CNAME = Some (File c)"
  then obtain c where c: "lookup fs CNAME = Some (File c)" by blast
  show ?thesis
    using copy_cname [OF assms(1,2) c] c by (simp add: build_cname_def existsSync_def)
qed

lemma build_assets_done:
  assumes d: "map_of fs ''dist'' = Some (Dir d)"
    and fresh: "''assets'' \<notin> fst ` set d" "''CNAME'' \<notin> fst ` set d"
    and a: "lookup fs ASSETS_DIR = None
      \<or> (\<exists>es. lookup fs ASSETS_DIR = Some (Dir es) \<and> well_formed (Dir es))"
    and c: "lookup fs CNAME = None \<or> (\<exists>c. lookup fs CNAME = Some (File c))"
  shows "build_assets elapsed fs con =
     \<lparr>files = AList.update ''dist''
        (Dir (d @ (case lookup fs ASSETS_DIR of None \<Rightarrow> [] | Some n \<Rightarrow> [(''assets'', n)])
                @ (case lookup fs CNAME of None \<Rightarrow> [] | Some n \<Rightarrow> [(''CNAME'', n)]))) fs,
      console = con
        @ (case lookup fs ASSETS_DIR of None \<Rightarrow> [] | Some n \<Rightarrow> [done_line ''assets/''])
        @ (case lookup fs CNAME of None \<Rightarrow> [] | Some n \<Rightarrow> [done_line ''CNAME''])
        @ [complete_line elapsed],
      exit_code = 0\<rparr>"
  using a
proof
  assume n: "lookup fs ASSETS_DIR = None"
  show ?thesis
    using build_cname_done [OF d fresh(2) c, of elapsed con] n
    by (simp add: build_assets_def existsSync_def)
next
  assume "\<exists>es. lookup fs ASSETS_DIR = Some (Dir es) \<and> well_formed (Dir es)"
  then obtain es where es: "lookup fs ASSETS_DIR = Some (Dir es)" "well_formed (Dir es)"
    by blast
  let ?fs' = "AList.update ''dist'' (Dir (d @ [(''assets'', Dir es)])) fs"
  have d': "map_of ?fs' ''dist'' = Some (Dir (d @ [(''assets'', Dir es)]))"
    by (simp add: AList.update_conv')
  have f': "''CNAME'' \<notin> fst ` set (d @ [(''assets'', Dir es)])"
    using fresh(2) by simp
  have l': "lookup ?fs' CNAME = lookup fs CNAME"
    by (simp add: CNAME_def AList.update_conv')
  have c': "lookup ?fs' CNAME = None \<or> (\<exists>c. lookup ?fs' CNAME = Some (File c))"
    using c l' by simp
  show ?thesis
    using copy_assets [OF d fresh(1) es] build_cname_done [OF d' f' c', of elapsed] es l'
    by (simp add: build_assets_def existsSync_def)
qed

lemma build_completes:
  assumes "lookup fs TEMPLATE = Some (File html)"
    and "injectData pf fs html = (lines, Inr out)"
    and "lookup fs ASSETS_DIR = None
      \<or> (\<exists>es. lookup fs ASSETS_DIR = Some (Dir es) \<and> well_formed (Dir es))"
    and "lookup fs CNAME = None \<or> (\<exists>c. lookup fs CNAME = Some (File c))"
  shows "build pf elapsed fs =
     \<lparr>files = AList.update ''dist''
        (Dir ((''index.html'', File out)
              # (case lookup fs ASSETS_DIR of None \<Rightarrow> [] | Some n \<Rightarrow> [(''assets'', n)])
              @ (case lookup fs CNAME of None \<Rightarrow> [] | Some n \<Rightarrow> [(''CNAME'', n)])))
        (AList.delete ''dist'' fs),
      console = started_line # lines @ [done_line ''index.html'']
        @ (case lookup fs ASSETS_DIR of None \<Rightarrow> [] | Some n \<Rightarrow> [done_line ''assets/''])
        @ (case lookup fs CNAME of None \<Rightarrow> [] | Some n \<Rightarrow> [done_line ''CNAME''])
        @ [complete_line elapsed],
      exit_code = 0\<rparr>"
proof -
  let ?fs2 = "AList.update ''dist'' (Dir [(''index.html'', File out)]) (AList.delete ''dist'' fs)"
  have d: "map_of ?fs2 ''dist'' = Some (Dir [(''index.html'', File out)])"
    by (simp add: AList.update_conv')
  have la: "lookup ?fs2 ASSETS_DIR = lookup fs ASSETS_DIR"
    and lc: "lookup ?fs2 CNAME = lookup fs CNAME"
    by (simp_all add: ASSETS_DIR_def CNAME_def AList.update_conv' AList.delete_conv')
  have "build_assets elapsed ?fs2 (started_line # lines @ [done_line ''index.html'']) =
     \<lparr>files = AList.update ''dist''
        (Dir ([(''index.html'', File out)]
              @ (case lookup ?fs2 ASSETS_DIR of None \<Rightarrow> [] | Some n \<Rightarrow> [(''assets'', n)])
              @ (case lookup ?fs2 CNAME of None \<Rightarrow> [] | Some n \<Rightarrow> [(''CNAME'', n)])))
        ?fs2,
      console = (started_line # lines @ [done_line ''index.html''])
        @ (case lookup ?fs2 ASSETS_DIR of None \<Rightarrow> [] | Some n \<Rightarrow> [done_line ''assets/''])
        @ (case lookup ?fs2 CNAME of None \<Rightarrow> [] | Some n \<Rightarrow> [done_line ''CNAME''])
        @ [complete_line elapsed],
      exit_code = 0\<rparr>"
    by (rule build_assets_done [OF d]) (use assms(3,4) in \<open>simp_all add: la lc\<close>)
  then show ?thesis
    unfolding build_to_assets [OF assms(1,2)] la lc by simp
qed

text \<open>
  Claim C10. When \<^verbatim>\<open>content/posts\<close> does not exist, \<^verbatim>\<open>readPosts\<close> returns no
  post and prints no warning, and the injector puts \<^verbatim>\<open>[]\<close> in the place of the
  posts token. The build then completes with status 0 and writes that text to
  \<^verbatim>\<open>dist/index.html\<close>, provided nothing else stops it: the template is a file,
  \<^verbatim>\<open>site.json\<close> gives a contact email, \<^verbatim>\<open>assets\<close> is missing or a directory,
  \<^verbatim>\<open>CNAME\<close> is missing or a file.
\<close>

theorem missing_posts_directory:
  assumes "lookup fs POSTS_DIR = None"
  shows "readPosts pf fs = ([], Inr [])
       \<and> injectData pf fs html =
           ([found_line 0],
            inject_tokens html []
              (readJSON pf fs [''content'', ''unlinked-comments.json''] (JArray []))
              (readJSON pf fs [''content'', ''about.json''] about_default)
              (readJSON pf fs [''content'', ''site.json''] (JObject [])))
       \<and> (contact_email (readJSON pf fs [''content'', ''site.json''] (JObject [])) = Inr email
            \<and> lookup fs TEMPLATE = Some (File html)
            \<and> (lookup fs ASSETS_DIR = None
                 \<or> (\<exists>es. lookup fs ASSETS_DIR = Some (Dir es) \<and> well_formed (Dir es)))
            \<and> (lookup fs CNAME = None \<or> (\<exists>c. lookup fs CNAME = Some (File c)))
          \<longrightarrow> exit_code (build pf elapsed fs) = 0
              \<and> lookup (files (build pf elapsed fs)) [''dist'', ''index.html''] =
                  Some (File
                    (String_replace
                      (String_replace
                        (String_replace
                          (String_replace html POSTS_TOKEN ''[]'')
                          UNLINKED_TOKEN
                          (JSON_stringify
                            (readJSON pf fs [''content'', ''unlinked-comments.json''] (JArray []))))
                        ABOUT_TOKEN
                        (JSON_stringify
                          (readJSON pf fs [''content'', ''about.json''] about_default)))
                      EMAIL_TOKEN email)))"
proof -
  let ?u = "readJSON pf fs [''content'', ''unlinked-comments.json''] (JArray [])"
  let ?a = "readJSON pf fs [''content'', ''about.json''] about_default"
  let ?s = "readJSON pf fs [''content'', ''site.json''] (JObject [])"
  let ?out = "\<lambda>email. String_replace (String_replace (String_replace
      (String_replace html POSTS_TOKEN ''[]'') UNLINKED_TOKEN (JSON_stringify ?u))
      ABOUT_TOKEN (JSON_stringify ?a)) EMAIL_TOKEN email"
  have r: "readPosts pf fs = ([], Inr [])"
    using assms by (simp add: readPosts_def)
  then have i: "injectData pf fs html = ([found_line 0], inject_tokens html [] ?u ?a ?s)"
    by (simp add: injectData_def)
  have "exit_code (build pf elapsed fs) = 0
      \<and> lookup (files (build pf elapsed fs)) [''dist'', ''index.html''] = Some (File (?out email))"
    if e: "contact_email ?s = Inr email"
      and t: "lookup fs TEMPLATE = Some (File html)"
      and a: "lookup fs ASSETS_DIR = None
        \<or> (\<exists>es. lookup fs ASSETS_DIR = Some (Dir es) \<and> well_formed (Dir es))"
      and c: "lookup fs CNAME = None \<or> (\<exists>c. lookup fs CNAME = Some (File c))"
  proof -
    have "inject_tokens html [] ?u ?a ?s = Inr (?out email)"
      using e by (simp add: inject_tokens_def stringify_defs)
    with i have "injectData pf fs html = ([found_line 0], Inr (?out email))" by simp
    from build_completes [OF t this a c, of elapsed] show ?thesis
      by (simp add: AList.update_conv')
  qed
  with r i show ?thesis by blast
qed

theorem missing_posts_directory_witness:
  "lookup [(''templates'', Dir [(''index.html'', File ''var posts = /*__POSTS_JSON__*/;'')]),
           (''content'', Dir [(''site.json'', File ''{}'')])] POSTS_DIR = None
   \<and> readPosts sample_platform
        [(''templates'', Dir [(''index.html'', File ''var posts = /*__POSTS_JSON__*/;'')]),
         (''content'', Dir [(''site.json'', File ''{}'')])] = ([], Inr [])
   \<and> exit_code (build sample_platform ''0.01''
        [(''templates'', Dir [(''index.html'', File ''var posts = /*__POSTS_JSON__*/;'')]),
         (''content'', Dir [(''site.json'', File ''{}'')])]) = 0
   \<and> lookup (files (build sample_platform ''0.01''
        [(''templates'', Dir [(''index.html'', File ''var posts = /*__POSTS_JSON__*/;'')]),
         (''content'', Dir [(''site.json'', File ''{}'')])])) [''dist'', ''index.html'']
       = Some (File ''var posts = [];'')
   \<and> console (build sample_platform ''0.01''
        [(''templates'', Dir [(''index.html'', File ''var posts = /*__POSTS_JSON__*/;'')]),
         (''content'', Dir [(''site.json'', File ''{}'')])])
       = [started_line, found_line 0, done_line ''index.html'', complete_line ''0.01'']"
proof -
  let ?fs = "[(''templates'', Dir [(''index.html'', File ''var posts = /*__POSTS_JSON__*/;'')]),
              (''content'', Dir [(''site.json'', File ''{}'')])]"
  have h: "lookup ?fs POSTS_DIR = None"
    by (simp add: POSTS_DIR_def)
  have b: "build sample_platform ''0.01'' ?fs =
      \<lparr>files = [(''templates'', Dir [(''index.html'', File ''var posts = /*__POSTS_JSON__*/;'')]),
                (''content'', Dir [(''site.json'', File ''{}'')]),
                (''dist'', Dir [(''index.html'', File ''var posts = [];'')])],
       console = [started_line, found_line 0, done_line ''index.html'', complete_line ''0.01''],
       exit_code = 0\<rparr>"
    by (simp add: build_defs inject_defs sample_defs token_defs stringify_defs)
  from missing_posts_directory [OF h, of sample_platform] h b show ?thesis by simp
qed

subsection \<open>A post file that does not parse\<close>

lemma load_posts_spec:
  "load_posts pf (filter (\<lambda>(f, n). endsWith f ''.json'') es) (w, ps)
     = (w @ parse_warnings pf es, ps @ parsed_posts pf es)"
proof (induction es arbitrary: w ps)
  case Nil
  show ?case by simp
next
  case (Cons e es)
  obtain f n where e: "e = (f, n)" by (cases e)
  show ?case
  proof (cases "endsWith f ''.json''")
    case False
    with e Cons.IH show ?thesis by simp
  next
    case True
    show ?thesis
    proof (cases "read_post pf n")
      case (Inl msg)
      with e True Cons.IH [of "w @ [Warn (warning_line f msg)]" ps] show ?thesis
        by (simp add: warning_line_def warning_sign_def)
    next
      case (Inr v)
      with e True Cons.IH [of w "ps @ [v]"] show ?thesis by simp
    qed
  qed
qed

lemma readPosts_spec:
  assumes "lookup fs POSTS_DIR = Some (Dir es)"
  shows "readPosts pf fs
       = (parse_warnings pf es, sort_posts (localeCompare pf) (parsed_posts pf es))"
  using assms load_posts_spec [of pf es "[]" "[]"] by (simp add: readPosts_def)

lemma parse_warnings_append:
  "parse_warnings pf (xs @ ys) = parse_warnings pf xs @ parse_warnings pf ys"
  by (induction xs) (auto split: sum.splits)

lemma parsed_posts_append:
  "parsed_posts pf (xs @ ys) = parsed_posts pf xs @ parsed_posts pf ys"
  by (induction xs) (auto split: sum.splits)

lemma insert_post_mset: "insert_post lc x ys = Inr r \<Longrightarrow> mset r = add_mset x (mset ys)"
  by (induction ys arbitrary: r) (auto split: sum.splits if_splits)

lemma sort_from_mset: "sort_from lc placed xs = Inr s \<Longrightarrow> mset s = mset placed + mset xs"
proof (induction xs arbitrary: placed)
  case Nil
  then show ?case by auto
next
  case (Cons x xs)
  then obtain r where r: "insert_post lc x placed = Inr r" "sort_from lc r xs = Inr s"
    by (auto split: sum.splits)
  from Cons.IH [OF r(2)] insert_post_mset [OF r(1)] show ?case by simp
qed

lemma sort_posts_mset: "sort_posts lc posts = Inr ordered \<Longrightarrow> mset ordered = mset posts"
  using sort_from_mset [of lc "[]" posts ordered] by (simp add: sort_posts_def)

lemma injectData_posts:
  assumes "lookup fs POSTS_DIR = Some (Dir es)"
    and "sort_posts (localeCompare pf) (parsed_posts pf es) = Inr ordered"
    and "contact_email (readJSON pf fs [''content'', ''site.json''] (JObject [])) = Inr email"
  shows "injectData pf fs html =
     (parse_warnings pf es @ [found_line (length ordered)],
      Inr (String_replace
            (String_replace
              (String_replace
                (String_replace html POSTS_TOKEN (JSON_stringify (JArray ordered)))
                UNLINKED_TOKEN
                (JSON_stringify
                  (readJSON pf fs [''content'', ''unlinked-comments.json''] (JArray []))))
              ABOUT_TOKEN
              (JSON_stringify (readJSON pf fs [''content'', ''about.json''] about_default)))
            EMAIL_TOKEN email))"
  using assms(2,3) by (simp add: injectData_def readPosts_spec [OF assms(1)] inject_tokens_def)

text \<open>
  Claim C4. The post loader returns the values of the \<^verbatim>\<open>.json\<close> files that parse,
  as the sort orders them, and one warning line for each \<^verbatim>\<open>.json\<close> file that does not. A file that
  cannot be read and parsed adds nothing to the posts and adds one line to the warnings,
  at its place among them, which holds its name and the message of the error; a file
  that parses adds its value to the posts, at its place, and no warning, whatever the
  files before and after it do. The build goes on: when nothing else stops it (the
  sort returns, the template is a file, \<^verbatim>\<open>site.json\<close> gives a contact email,
  \<^verbatim>\<open>assets\<close> is missing or a directory, \<^verbatim>\<open>CNAME\<close> is missing or a file), it
  ends with status 0, the console holds those warning lines before the line that counts
  the posts, and \<^verbatim>\<open>dist/index.html\<close> holds the serialized array of the posts that
  parsed, and of no others, in the place of the posts token.
\<close>

theorem bad_post_file_skipped:
  assumes "lookup fs POSTS_DIR = Some (Dir es)"
  shows "readPosts pf fs
           = (parse_warnings pf es, sort_posts (localeCompare pf) (parsed_posts pf es))
       \<and> (es = before @ (f, n) # after \<and> endsWith f ''.json'' \<and> read_post pf n = Inl msg \<longrightarrow>
            parse_warnings pf es
              = parse_warnings pf before
                @ [Warn (''  '' @ [CHR 0xE2, CHR 0x9A, CHR 0xA0] @ ''  '' @ f @ '': '' @ msg)]
                @ parse_warnings pf after
            \<and> parsed_posts pf es = parsed_posts pf before @ parsed_posts pf after)
       \<and> (es = before @ (f, n) # after \<and> endsWith f ''.json'' \<and> read_post pf n = Inr v \<longrightarrow>
            parse_warnings pf es = parse_warnings pf before @ parse_warnings pf after
            \<and> parsed_posts pf es = parsed_posts pf before @ [v] @ parsed_posts pf after)
       \<and> (sort_posts (localeCompare pf) (parsed_posts pf es) = Inr ordered
            \<and> lookup fs TEMPLATE = Some (File html)
            \<and> contact_email (readJSON pf fs [''content'', ''site.json''] (JObject [])) = Inr email
            \<and> (lookup fs ASSETS_DIR = None
                 \<or> (\<exists>as. lookup fs ASSETS_DIR = Some (Dir as) \<and> well_formed (Dir as)))
            \<and> (lookup fs CNAME = None \<or> (\<exists>c. lookup fs CNAME = Some (File c)))
          \<longrightarrow> mset ordered = mset (parsed_posts pf es)
              \<and> exit_code (build pf elapsed fs) = 0
              \<and> console (build pf elapsed fs)
                  = started_line # parse_warnings pf es
                    @ [found_line (length ordered), done_line ''index.html'']
                    @ (case lookup fs ASSETS_DIR of None \<Rightarrow> [] | Some d \<Rightarrow> [done_line ''assets/''])
                    @ (case lookup fs CNAME of None \<Rightarrow> [] | Some d \<Rightarrow> [done_line ''CNAME''])
                    @ [complete_line elapsed]
              \<and> lookup (files (build pf elapsed fs)) [''dist'', ''index.html''] =
                  Some (File
                    (String_replace
                      (String_replace
                        (String_replace
                          (String_replace html POSTS_TOKEN (JSON_stringify (JArray ordered)))
                          UNLINKED_TOKEN
                          (JSON_stringify
                            (readJSON pf fs [''content'', ''unlinked-comments.json''] (JArray []))))
                        ABOUT_TOKEN
                        (JSON_stringify
                          (readJSON pf fs [''content'', ''about.json''] about_default)))
                      EMAIL_TOKEN email)))"
proof (intro conjI impI)
  show "readPosts pf fs
      = (parse_warnings pf es, sort_posts (localeCompare pf) (parsed_posts pf es))"
    by (rule readPosts_spec [OF assms])
next
  assume "es = before @ (f, n) # after \<and> endsWith f ''.json'' \<and> read_post pf n = Inl msg"
  then show "parse_warnings pf es
      = parse_warnings pf before
        @ [Warn (''  '' @ [CHR 0xE2, CHR 0x9A, CHR 0xA0] @ ''  '' @ f @ '': '' @ msg)]
        @ parse_warnings pf after"
    and "parsed_posts pf es = parsed_posts pf before @ parsed_posts pf after"
    by (simp_all add: parse_warnings_append parsed_posts_append)
next
  assume "es = before @ (f, n) # after \<and> endsWith f ''.json'' \<and> read_post pf n = Inr v"
  then show "parse_warnings pf es = parse_warnings pf before @ parse_warnings pf after"
    and "parsed_posts pf es = parsed_posts pf before @ [v] @ parsed_posts pf after"
    by (simp_all add: parse_warnings_append parsed_posts_append)
next
  assume a: "sort_posts (localeCompare pf) (parsed_posts pf es) = Inr ordered
      \<and> lookup fs TEMPLATE = Some (File html)
      \<and> contact_email (readJSON pf fs [''content'', ''site.json''] (JObject [])) = Inr email
      \<and> (lookup fs ASSETS_DIR = None
           \<or> (\<exists>as. lookup fs ASSETS_DIR = Some (Dir as) \<and> well_formed (Dir as)))
      \<and> (lookup fs CNAME = None \<or> (\<exists>c. lookup fs CNAME = Some (File c)))"
  then have s: "sort_posts (localeCompare pf) (parsed_posts pf es) = Inr ordered"
    and t: "lookup fs TEMPLATE = Some (File html)"
    and e: "contact_email (readJSON pf fs [''content'', ''site.json''] (JObject [])) = Inr email"
    and as: "lookup fs ASSETS_DIR = None
           \<or> (\<exists>as. lookup fs ASSETS_DIR = Some (Dir as) \<and> well_formed (Dir as))"
    and c: "lookup fs CNAME = None \<or> (\<exists>c. lookup fs CNAME = Some (File c))"
    by simp_all
  note b = build_completes [OF t injectData_posts [OF assms s e] as c, of elapsed]
  show "mset ordered = mset (parsed_posts pf es)"
    by (rule sort_posts_mset [OF s])
  show "exit_code (build pf elapsed fs) = 0"
    unfolding b by simp
  show "console (build pf elapsed fs)
      = started_line # parse_warnings pf es
        @ [found_line (length ordered), done_line ''index.html'']
        @ (case lookup fs ASSETS_DIR of None \<Rightarrow> [] | Some d \<Rightarrow> [done_line ''assets/''])
        @ (case lookup fs CNAME of None \<Rightarrow> [] | Some d \<Rightarrow> [done_line ''CNAME''])
        @ [complete_line elapsed]"
    unfolding b by simp
  show "lookup (files (build pf elapsed fs)) [''dist'', ''index.html''] =
      Some (File
        (String_replace
          (String_replace
            (String_replace
              (String_replace html POSTS_TOKEN (JSON_stringify (JArray ordered)))
              UNLINKED_TOKEN
              (JSON_stringify
                (readJSON pf fs [''content'', ''unlinked-comments.json''] (JArray []))))
            ABOUT_TOKEN
            (JSON_stringify
              (readJSON pf fs [''content'', ''about.json''] about_default)))
          EMAIL_TOKEN email))"
    unfolding b by (simp add: AList.update_conv')
qed

theorem bad_post_file_skipped_witness:
  \<open>lookup
     [(''templates'', Dir [(''index.html'', File ''var posts = /*__POSTS_JSON__*/;'')]),
      (''content'', Dir [(''posts'', Dir
        ([(''a.json'', File ''{"date":"2026-01-01"}''), (''b.json'', File ''{}'')]
         @ (''c.json'', File ''{"date":'')
         # [(''d.json'', File ''{"date":"2026-02-07"}''), (''e.json'', File ''{}'')]))])]
     POSTS_DIR
   = Some (Dir
        ([(''a.json'', File ''{"date":"2026-01-01"}''), (''b.json'', File ''{}'')]
         @ (''c.json'', File ''{"date":'')
         # [(''d.json'', File ''{"date":"2026-02-07"}''), (''e.json'', File ''{}'')]))
   \<and> endsWith ''c.json'' ''.json''
   \<and> read_post sample_platform (File ''{"date":'') = Inl ''Unexpected end of JSON input''
   \<and> parse_warnings sample_platform
        ([(''a.json'', File ''{"date":"2026-01-01"}''), (''b.json'', File ''{}'')]
         @ (''c.json'', File ''{"date":'')
         # [(''d.json'', File ''{"date":"2026-02-07"}''), (''e.json'', File ''{}'')])
     = [Warn (''  '' @ [CHR 0xE2, CHR 0x9A, CHR 0xA0]
              @ ''  c.json: Unexpected end of JSON input'')]
   \<and> parsed_posts sample_platform
        ([(''a.json'', File ''{"date":"2026-01-01"}''), (''b.json'', File ''{}'')]
         @ (''c.json'', File ''{"date":'')
         # [(''d.json'', File ''{"date":"2026-02-07"}''), (''e.json'', File ''{}'')])
     = [JObject [(''date'', JString ''2026-01-01'')], JObject [],
        JObject [(''date'', JString ''2026-02-07'')], JObject []]
   \<and> sort_posts (localeCompare sample_platform)
        [JObject [(''date'', JString ''2026-01-01'')], JObject [],
         JObject [(''date'', JString ''2026-02-07'')], JObject []]
     = Inr [JObject [(''date'', JString ''2026-02-07'')],
            JObject [(''date'', JString ''2026-01-01'')], JObject [], JObject []]
   \<and> lookup
     [(''templates'', Dir [(''index.html'', File ''var posts = /*__POSTS_JSON__*/;'')]),
      (''content'', Dir [(''posts'', Dir
        ([(''a.json'', File ''{"date":"2026-01-01"}''), (''b.json'', File ''{}'')]
         @ (''c.json'', File ''{"date":'')
         # [(''d.json'', File ''{"date":"2026-02-07"}''), (''e.json'', File ''{}'')]))])]
     TEMPLATE
   = Some (File ''var posts = /*__POSTS_JSON__*/;'')
   \<and> readPosts sample_platform
     [(''templates'', Dir [(''index.html'', File ''var posts = /*__POSTS_JSON__*/;'')]),
      (''content'', Dir [(''posts'', Dir
        ([(''a.json'', File ''{"date":"2026-01-01"}''), (''b.json'', File ''{}'')]
         @ (''c.json'', File ''{"date":'')
         # [(''d.json'', File ''{"date":"2026-02-07"}''), (''e.json'', File ''{}'')]))])]
   = ([Warn (''  '' @ [CHR 0xE2, CHR 0x9A, CHR 0xA0]
             @ ''  c.json: Unexpected end of JSON input'')],
      Inr [JObject [(''date'', JString ''2026-02-07'')],
           JObject [(''date'', JString ''2026-01-01'')], JObject [], JObject []])
   \<and> build sample_platform ''0.01''
     [(''templates'', Dir [(''index.html'', File ''var posts = /*__POSTS_JSON__*/;'')]),
      (''content'', Dir [(''posts'', Dir
        ([(''a.json'', File ''{"date":"2026-01-01"}''), (''b.json'', File ''{}'')]
         @ (''c.json'', File ''{"date":'')
         # [(''d.json'', File ''{"date":"2026-02-07"}''), (''e.json'', File ''{}'')]))])]
   = \<lparr>files =
        [(''templates'', Dir [(''index.html'', File ''var posts = /*__POSTS_JSON__*/;'')]),
         (''content'', Dir [(''posts'', Dir
           [(''a.json'', File ''{"date":"2026-01-01"}''), (''b.json'', File ''{}''),
            (''c.json'', File ''{"date":''),
            (''d.json'', File ''{"date":"2026-02-07"}''), (''e.json'', File ''{}'')])]),
         (''dist'', Dir [(''index.html'', File
            (''var posts = ['' @ [CHR 0x0A]
             @ ''  {'' @ [CHR 0x0A] @ ''    "date": "2026-02-07"'' @ [CHR 0x0A] @ ''  },''
             @ [CHR 0x0A]
             @ ''  {'' @ [CHR 0x0A] @ ''    "date": "2026-01-01"'' @ [CHR 0x0A] @ ''  },''
             @ [CHR 0x0A]
             @ ''  {},'' @ [CHR 0x0A] @ ''  {}'' @ [CHR 0x0A] @ ''];''))])],
      console = [started_line,
                 Warn (''  '' @ [CHR 0xE2, CHR 0x9A, CHR 0xA0]
                       @ ''  c.json: Unexpected end of JSON input''),
                 Log ''  Found 4 post(s)'', done_line ''index.html'', complete_line ''0.01''],
      exit_code = 0\<rparr>\<close>
proof -
  let ?before = \<open>[(''a.json'', File ''{"date":"2026-01-01"}''), (''b.json'', File ''{}'')]\<close>
  let ?after = \<open>[(''d.json'', File ''{"date":"2026-02-07"}''), (''e.json'', File ''{}'')]\<close>
  let ?bad = \<open>File ''{"date":''\<close>
  let ?es = "?before @ (''c.json'', ?bad) # ?after"
  let ?tpl = "(''templates'', Dir [(''index.html'', File ''var posts = /*__POSTS_JSON__*/;'')])"
  let ?fs = "[?tpl, (''content'', Dir [(''posts'', Dir ?es)])]"
  let ?warn = "Warn (''  '' @ [CHR 0xE2, CHR 0x9A, CHR 0xA0]
      @ ''  c.json: Unexpected end of JSON input'')"
  let ?ordered = "[JObject [(''date'', JString ''2026-02-07'')],
      JObject [(''date'', JString ''2026-01-01'')], JObject [], JObject []]"
  have h1: "lookup ?fs POSTS_DIR = Some (Dir ?es)"
    by (simp add: POSTS_DIR_def)
  have h2: "endsWith ''c.json'' ''.json''"
    by (simp add: endsWith_def)
  have h3: "read_post sample_platform ?bad = Inl ''Unexpected end of JSON input''"
    by (simp add: read_post_def sample_platform_def sample_parse_def)
  have w: "parse_warnings sample_platform ?es = [?warn]"
    and p: \<open>parsed_posts sample_platform ?es
      = [JObject [(''date'', JString ''2026-01-01'')], JObject [],
         JObject [(''date'', JString ''2026-02-07'')], JObject []]\<close>
    by (simp_all add: endsWith_def read_post_def sample_platform_def sample_parse_def)
  have h5: "sort_posts (localeCompare sample_platform) (parsed_posts sample_platform ?es)
      = Inr ?ordered"
    by (simp add: endsWith_def read_post_def sample_defs sort_posts_def compare_posts_def
        date_or_empty_def or_empty_def)
  have h6: "lookup ?fs TEMPLATE = Some (File ''var posts = /*__POSTS_JSON__*/;'')"
    "contact_email (readJSON sample_platform ?fs [''content'', ''site.json''] (JObject []))
       = Inr []"
    "lookup ?fs ASSETS_DIR = None" "lookup ?fs CNAME = None"
    by (simp_all add: TEMPLATE_def ASSETS_DIR_def CNAME_def readJSON_def contact_email_def
        or_empty_def)
  have h7: \<open>build sample_platform ''0.01'' ?fs
     = \<lparr>files = [?tpl, (''content'', Dir [(''posts'', Dir ?es)]),
         (''dist'', Dir [(''index.html'', File
            (''var posts = ['' @ [CHR 0x0A]
             @ ''  {'' @ [CHR 0x0A] @ ''    "date": "2026-02-07"'' @ [CHR 0x0A] @ ''  },''
             @ [CHR 0x0A]
             @ ''  {'' @ [CHR 0x0A] @ ''    "date": "2026-01-01"'' @ [CHR 0x0A] @ ''  },''
             @ [CHR 0x0A]
             @ ''  {},'' @ [CHR 0x0A] @ ''  {}'' @ [CHR 0x0A] @ ''];''))])],
      console = [started_line, ?warn, Log ''  Found 4 post(s)'', done_line ''index.html'',
                 complete_line ''0.01''],
      exit_code = 0\<rparr>\<close>
    by (simp add: build_defs inject_defs sample_defs token_defs stringify_defs found_line_def
        decimal.simps warning_line_def warning_sign_def)
  note t = bad_post_file_skipped [OF h1, where pf = sample_platform and before = ?before
      and f = "''c.json''" and n = ?bad and after = ?after
      and msg = "''Unexpected end of JSON input''" and ordered = ?ordered
      and html = "''var posts = /*__POSTS_JSON__*/;''" and email = "[]" and elapsed = "''0.01''"]
  have r: "readPosts sample_platform ?fs = ([?warn], Inr ?ordered)"
    by (simp only: t [THEN conjunct1] w h5)
  have x: "exit_code (build sample_platform ''0.01'' ?fs) = 0"
    using t [THEN conjunct2, THEN conjunct2, THEN conjunct2] h5 h6 by simp
  from h1 h2 h3 w p h5 h6(1) r h7 x show ?thesis by simp
qed

end
